theory Spec2Isabelle
  imports Main "HOL-Library.Sublist"
begin

section \<open>Python strings\<close>

text \<open>
  A Python \<^verbatim>\<open>str\<close> is a sequence of Unicode code points; a code point is modelled
  as a natural number. ASCII literals of the source are written with \<open>str\<close>.
\<close>

type_synonym pychar = nat
type_synonym pystr = "pychar list"

definition str :: "string \<Rightarrow> pystr" where
  "str s = map of_char s"

text \<open>
  The classification of the code points beyond ASCII comes from the interpreter's Unicode
  database, which is not part of the program: it is a parameter of the model. Below 128
  CPython answers from fixed tables, which are written out. A surrogate (U+D800 to
  U+DFFF) is neither whitespace nor alphanumeric in any version of the database, and a
  number from 1114112 on is no code point and occurs in no \<^verbatim>\<open>str\<close>: the parameter is
  asked about the other code points, the Unicode scalar values, only.
\<close>

definition scalar_value :: "pychar \<Rightarrow> bool" where
  "scalar_value c = (c < 55296 \<or> (57343 < c \<and> c < 1114112))"

record ucd =
  uni_isalnum :: "pychar \<Rightarrow> bool"
  uni_isspace :: "pychar \<Rightarrow> bool"

definition py_isspace :: "ucd \<Rightarrow> pychar \<Rightarrow> bool" where
  "py_isspace U c =
     (if c < 128 then (9 \<le> c \<and> c \<le> 13) \<or> (28 \<le> c \<and> c \<le> 32)
      else scalar_value c \<and> uni_isspace U c)"

definition py_isalnum :: "ucd \<Rightarrow> pychar \<Rightarrow> bool" where
  "py_isalnum U c =
     (if c < 128 then (48 \<le> c \<and> c \<le> 57) \<or> (65 \<le> c \<and> c \<le> 90) \<or> (97 \<le> c \<and> c \<le> 122)
      else scalar_value c \<and> uni_isalnum U c)"

text \<open>The regular-expression classes \<^verbatim>\<open>\w\<close> and \<^verbatim>\<open>\s\<close> of a \<^verbatim>\<open>str\<close> pattern.\<close>

definition re_word :: "ucd \<Rightarrow> pychar \<Rightarrow> bool" where
  "re_word U c = (py_isalnum U c \<or> c = 95)"

definition re_space :: "ucd \<Rightarrow> pychar \<Rightarrow> bool" where
  "re_space U c = py_isspace U c"

text \<open>\<^verbatim>\<open>s.strip()\<close>: whitespace removed at both ends.\<close>

definition strip :: "ucd \<Rightarrow> pystr \<Rightarrow> pystr" where
  "strip U s = rev (dropWhile (py_isspace U) (rev (dropWhile (py_isspace U) s)))"

text \<open>A database that knows nothing beyond ASCII, for evaluating ASCII inputs.\<close>

definition ascii_ucd :: ucd where
  "ascii_ucd = \<lparr>uni_isalnum = (\<lambda>c. False), uni_isspace = (\<lambda>c. False)\<rparr>"

text \<open>
  The real database on the code points 128 to 255 (letters, superscript digits and
  fractions are alphanumeric; the next-line control and the no-break space are
  whitespace), and nothing beyond.
\<close>

definition latin1_ucd :: ucd where
  "latin1_ucd =
     \<lparr>uni_isalnum = (\<lambda>c. c \<in> {170, 178, 179, 181, 185, 186, 188, 189, 190}
         \<or> (192 \<le> c \<and> c \<le> 214) \<or> (216 \<le> c \<and> c \<le> 246) \<or> (248 \<le> c \<and> c \<le> 255)),
      uni_isspace = (\<lambda>c. c = 133 \<or> c = 160)\<rparr>"

section \<open>Regular-expression substitution\<close>

text \<open>
  \<^verbatim>\<open>re.sub('[cls]', repl, s)\<close> for a one-character class: the scan goes left to right
  and every character of the class is replaced.
\<close>

fun re_sub_class :: "(pychar \<Rightarrow> bool) \<Rightarrow> pystr \<Rightarrow> pystr \<Rightarrow> pystr" where
  "re_sub_class P repl [] = []"
| "re_sub_class P repl (c # cs) =
     (if P c then repl @ re_sub_class P repl cs else c # re_sub_class P repl cs)"

text \<open>
  \<^verbatim>\<open>re.sub('[cls]+', repl, s)\<close>: at a character of the class the greedy \<^verbatim>\<open>+\<close> takes
  the whole run, the run is replaced once, and the scan goes on behind it.
\<close>

function re_sub_plus :: "(pychar \<Rightarrow> bool) \<Rightarrow> pystr \<Rightarrow> pystr \<Rightarrow> pystr" where
  "re_sub_plus P repl [] = []"
| "re_sub_plus P repl (c # cs) =
     (if P c then repl @ re_sub_plus P repl (dropWhile P cs) else c # re_sub_plus P repl cs)"
  by pat_completeness auto
termination
  by (relation "measure (\<lambda>(P, repl, s). length s)")
     (auto simp: length_dropWhile_le less_Suc_eq_le)

section \<open>The output filename\<close>

text \<open>
  Lines 88 to 90 of \<^verbatim>\<open>download_audio\<close>:
  \<^verbatim>\<open>safe_filename = re.sub(r'[^\w\s-]', '', query.strip())\<close>,
  \<^verbatim>\<open>safe_filename = re.sub(r'[-\s]+', '_', safe_filename)\<close>,
  \<^verbatim>\<open>filename = f"{safe_filename}.mp3"\<close>.
\<close>

definition special :: "ucd \<Rightarrow> pychar \<Rightarrow> bool" where
  \<comment> \<open>the class \<^verbatim>\<open>[^\w\s-]\<close>\<close>
  "special U c = (\<not> (re_word U c \<or> re_space U c \<or> c = 45))"

definition separator :: "ucd \<Rightarrow> pychar \<Rightarrow> bool" where
  \<comment> \<open>the class \<^verbatim>\<open>[-\s]\<close>\<close>
  "separator U c = (c = 45 \<or> re_space U c)"

definition safe_filename :: "ucd \<Rightarrow> pystr \<Rightarrow> pystr" where
  "safe_filename U query =
     re_sub_plus (separator U) (str ''_'') (re_sub_class (special U) [] (strip U query))"

definition filename :: "ucd \<Rightarrow> pystr \<Rightarrow> pystr" where
  "filename U query = safe_filename U query @ str ''.mp3''"

text \<open>
  Collapsing as the specification words it, without the regular-expression scan: inside a
  run of separators every character but the last is dropped, and the last one becomes the
  underscore.
\<close>

fun collapse_runs :: "(pychar \<Rightarrow> bool) \<Rightarrow> pystr \<Rightarrow> pystr" where
  "collapse_runs P [] = []"
| "collapse_runs P [c] = (if P c then [95] else [c])"
| "collapse_runs P (c # d # cs) =
     (if P c then (if P d then collapse_runs P (d # cs) else 95 # collapse_runs P (d # cs))
      else c # collapse_runs P (d # cs))"

text \<open>
  The derivation as the specification words it: the query is trimmed, every character
  that is not alphanumeric, whitespace or hyphen is stripped, the runs are collapsed and
  the extension is appended.
\<close>

definition spec_keeps :: "ucd \<Rightarrow> pychar \<Rightarrow> bool" where
  "spec_keeps U c = (py_isalnum U c \<or> py_isspace U c \<or> c = 45)"

definition spec_filename :: "ucd \<Rightarrow> pystr \<Rightarrow> pystr" where
  "spec_filename U query =
     collapse_runs (separator U) (filter (spec_keeps U) (strip U query)) @ str ''.mp3''"

section \<open>The token pattern\<close>

text \<open>
  \<^verbatim>\<open>re.search(r'"([A-Z]/[A-Z0-9]+)"', text)\<close>. The classes are plain ranges of code
  points. \<open>run_then_quote\<close> is the tail \<^verbatim>\<open>[A-Z0-9]+"\<close> of the pattern, anchored: the
  greedy \<^verbatim>\<open>+\<close> first tries to take one more character and, when the rest then fails,
  backtracks and tries to close the run where it stands. \<open>match_at\<close> is the whole pattern
  anchored at the head of the text and returns group 1; \<open>re_search\<close> tries the start
  positions from left to right.
\<close>

definition is_upper :: "pychar \<Rightarrow> bool" where
  "is_upper c = (65 \<le> c \<and> c \<le> 90)"

definition is_upper_digit :: "pychar \<Rightarrow> bool" where
  "is_upper_digit c = (is_upper c \<or> (48 \<le> c \<and> c \<le> 57))"

fun run_then_quote :: "pystr \<Rightarrow> pystr option" where
  "run_then_quote [] = None"
| "run_then_quote (c # cs) =
     (if is_upper_digit c then
        (case run_then_quote cs of
           Some r \<Rightarrow> Some (c # r)
         | None \<Rightarrow> (case cs of [] \<Rightarrow> None | d # _ \<Rightarrow> if d = 34 then Some [c] else None))
      else None)"

fun match_at :: "pystr \<Rightarrow> pystr option" where
  "match_at (q # u # sl # rest) =
     (if q = 34 \<and> is_upper u \<and> sl = 47
      then map_option (\<lambda>r. u # sl # r) (run_then_quote rest) else None)"
| "match_at _ = None"

fun re_search :: "pystr \<Rightarrow> pystr option" where
  "re_search [] = None"
| "re_search (c # cs) =
     (case match_at (c # cs) of Some t \<Rightarrow> Some t | None \<Rightarrow> re_search cs)"

text \<open>
  The shape of a token in the specification's words: one uppercase letter, a slash, then
  a non-empty run of uppercase letters and digits.
\<close>

fun token_shape :: "pystr \<Rightarrow> bool" where
  "token_shape (u # sl # c # r) = (is_upper u \<and> sl = 47 \<and> list_all is_upper_digit (c # r))"
| "token_shape _ = False"

section \<open>Percent-encoding\<close>

text \<open>
  \<^verbatim>\<open>urllib.parse.quote(s)\<close> with its defaults: the text is encoded as UTF-8 with strict
  error handling, and every byte that is not a letter, a digit, one of \<^verbatim>\<open>_.-~\<close> or the
  slash becomes \<^verbatim>\<open>%XX\<close> in upper-case hexadecimal. A lone surrogate has no UTF-8
  encoding: the library raises \<^verbatim>\<open>UnicodeEncodeError\<close>. (A number from 1114112 on is
  no code point and occurs in no \<^verbatim>\<open>str\<close>.)
\<close>

datatype os_error =
  FileNotFoundError | FileExistsError | NotADirectoryError | IsADirectoryError
  | PermissionError | NoSpaceError

datatype exn = UnicodeEncodeError | OSError os_error

definition utf8_char :: "pychar \<Rightarrow> nat list option" where
  "utf8_char c =
     (if c < 128 then Some [c]
      else if c < 2048 then Some [192 + c div 64, 128 + c mod 64]
      else if c < 65536 then
        (if 55296 \<le> c \<and> c \<le> 57343 then None
         else Some [224 + c div 4096, 128 + (c div 64) mod 64, 128 + c mod 64])
      else if c < 1114112 then
        Some [240 + c div 262144, 128 + (c div 4096) mod 64, 128 + (c div 64) mod 64,
              128 + c mod 64]
      else None)"

fun utf8_encode :: "pystr \<Rightarrow> nat list option" where
  "utf8_encode [] = Some []"
| "utf8_encode (c # cs) =
     (case utf8_char c of
        None \<Rightarrow> None
      | Some bs \<Rightarrow> map_option (\<lambda>rest. bs @ rest) (utf8_encode cs))"

definition always_safe :: "nat \<Rightarrow> bool" where
  "always_safe b =
     ((65 \<le> b \<and> b \<le> 90) \<or> (97 \<le> b \<and> b \<le> 122) \<or> (48 \<le> b \<and> b \<le> 57)
      \<or> b = 95 \<or> b = 46 \<or> b = 45 \<or> b = 126)"

definition hex_digit :: "nat \<Rightarrow> pychar" where
  "hex_digit n = (if n < 10 then 48 + n else 55 + n)"

definition quote_byte :: "nat \<Rightarrow> pystr" where
  "quote_byte b =
     (if always_safe b \<or> b = 47 then [b] else [37, hex_digit (b div 16), hex_digit (b mod 16)])"

definition quote :: "pystr \<Rightarrow> exn + pystr" where
  "quote s =
     (case utf8_encode s of
        None \<Rightarrow> Inl UnicodeEncodeError
      | Some bs \<Rightarrow> Inr (concat (map quote_byte bs)))"

section \<open>The world: network, file system, standard output\<close>

text \<open>
  A request as \<^verbatim>\<open>requests.get(url, timeout=..., headers=...)\<close> sends it; no
  \<^verbatim>\<open>headers\<close> argument is \<open>None\<close>, the library's defaults. The call either raises
  a \<^verbatim>\<open>RequestException\<close> or returns a response; \<^verbatim>\<open>raise_for_status\<close> raises
  \<^verbatim>\<open>HTTPError\<close> for the status codes 400 to 599.
\<close>

record request =
  req_url :: pystr
  req_timeout :: nat
  req_headers :: "(pystr \<times> pystr) list option"

record response =
  status_code :: nat
  resp_text :: pystr
  resp_content :: "nat list"

datatype request_exception = ConnectionFailure | HTTPError nat

definition raise_for_status :: "response \<Rightarrow> request_exception option" where
  "raise_for_status r =
     (if 400 \<le> status_code r \<and> status_code r < 600 then Some (HTTPError (status_code r))
      else None)"

text \<open>
  A path is the list of its segments, as \<^verbatim>\<open>pathlib\<close> holds it; the empty path is the
  directory the segments start from, which always exists. The file system maps a path to
  the node there. The operating system may refuse to create or open a path
  (\<open>denied\<close>: permissions, a read-only volume) and may run out of space
  (\<open>disk_free\<close>, in bytes). A segment is an opaque name: the model does not resolve
  \<^verbatim>\<open>..\<close> and knows no symbolic links, so what it says about a path holds for paths of
  plain names (\<open>plain_path\<close> below). \<open>sent\<close> is the list of the requests handed to
  \<^verbatim>\<open>requests.get\<close>, in order.
\<close>

type_synonym path = "pystr list"

datatype node = Dir | File "nat list"

datatype message =
  NoAudioTokenFound pystr
  | ErrorFetchingPage pystr request_exception
  | FoundAudioToken pystr
  | DownloadingAudio pystr
  | SuccessfullySaved path
  | ErrorDownloadingAudio request_exception
  | Done

record world =
  http :: "request \<Rightarrow> request_exception + response"
  sent :: "request list"
  nodes :: "path \<Rightarrow> node option"
  denied :: "path \<Rightarrow> bool"
  disk_free :: nat
  stdout :: "message list"

definition requests_get :: "world \<Rightarrow> request \<Rightarrow> (request_exception + response) \<times> world" where
  "requests_get W req = (http W req, W\<lparr>sent := sent W @ [req]\<rparr>)"

text \<open>
  Standard output is the list of the messages printed, one constructor for each
  \<^verbatim>\<open>print\<close> of the source. It has the interpreter's default encoding, UTF-8 with
  strict error handling: \<^verbatim>\<open>print\<close> raises \<^verbatim>\<open>UnicodeEncodeError\<close> when the text
  holds a code point without a UTF-8 encoding, a lone surrogate. The fixed parts of the
  messages are ASCII, and the text of a \<^verbatim>\<open>RequestException\<close> is composed by the
  library from encoded URLs and decoded reason phrases; what can make a message
  unprintable is the value the f-string interpolates: the query, the token, the path.
\<close>

fun interpolated :: "message \<Rightarrow> pystr" where
  "interpolated (NoAudioTokenFound query) = query"
| "interpolated (ErrorFetchingPage query e) = query"
| "interpolated (FoundAudioToken token) = token"
| "interpolated (DownloadingAudio query) = query"
| "interpolated (SuccessfullySaved output_path) = concat output_path"
| "interpolated (ErrorDownloadingAudio e) = []"
| "interpolated Done = []"

definition printable :: "message \<Rightarrow> bool" where
  "printable m = (utf8_encode (interpolated m) \<noteq> None)"

definition say :: "message \<Rightarrow> world \<Rightarrow> world" where
  "say m W = W\<lparr>stdout := stdout W @ [m]\<rparr>"

definition print :: "message \<Rightarrow> world \<Rightarrow> exn + world" where
  "print m W = (if printable m then Inr (say m W) else Inl UnicodeEncodeError)"

definition parent :: "path \<Rightarrow> path" where
  "parent p = butlast p"

definition node_at :: "world \<Rightarrow> path \<Rightarrow> node option" where
  "node_at W p = (if p = [] then Some Dir else nodes W p)"

definition is_dir :: "world \<Rightarrow> path \<Rightarrow> bool" where
  "is_dir W p = (node_at W p = Some Dir)"

text \<open>\<^verbatim>\<open>os.mkdir(p)\<close>: one directory, whose parent must be there.\<close>

definition os_mkdir :: "world \<Rightarrow> path \<Rightarrow> os_error + world" where
  "os_mkdir W p =
     (if p = [] then Inl FileExistsError
      else case node_at W (parent p) of
        None \<Rightarrow> Inl FileNotFoundError
      | Some (File _) \<Rightarrow> Inl NotADirectoryError
      | Some Dir \<Rightarrow>
          if nodes W p \<noteq> None then Inl FileExistsError
          else if denied W p then Inl PermissionError
          else Inr (W\<lparr>nodes := (nodes W)(p \<mapsto> Dir)\<rparr>))"

text \<open>
  \<^verbatim>\<open>Path.mkdir(parents=False, exist_ok=True)\<close> and
  \<^verbatim>\<open>Path.mkdir(parents=True, exist_ok=True)\<close> of \<^verbatim>\<open>pathlib\<close>: a missing parent is
  created first, with the same call, and then the directory itself without
  \<^verbatim>\<open>parents\<close>; any other error is swallowed when the path is a directory already.
\<close>

definition mkdir_flat :: "world \<Rightarrow> path \<Rightarrow> os_error option \<times> world" where
  "mkdir_flat W p =
     (case os_mkdir W p of
        Inr W' \<Rightarrow> (None, W')
      | Inl e \<Rightarrow>
          if e = FileNotFoundError then (Some e, W)
          else if is_dir W p then (None, W) else (Some e, W))"

function mkdir_parents :: "world \<Rightarrow> path \<Rightarrow> os_error option \<times> world" where
  "mkdir_parents W p =
     (case os_mkdir W p of
        Inr W' \<Rightarrow> (None, W')
      | Inl e \<Rightarrow>
          if e = FileNotFoundError then
            (if parent p = p then (Some e, W)
             else case mkdir_parents W (parent p) of
               (Some e', W') \<Rightarrow> (Some e', W')
             | (None, W') \<Rightarrow> mkdir_flat W' p)
          else if is_dir W p then (None, W) else (Some e, W))"
  by pat_completeness auto
termination
proof (relation "measure (\<lambda>(W, p). length p)")
  show "wf (measure (\<lambda>(W, p). length p))"
    by simp
next
  fix W :: world and p :: path and e :: os_error
  assume "parent p \<noteq> p"
  then have "p \<noteq> []"
    by (auto simp: parent_def)
  then show "((W, parent p), (W, p)) \<in> measure (\<lambda>(W, p). length p)"
    by (simp add: parent_def)
qed

declare mkdir_parents.simps [simp del]

text \<open>
  \<^verbatim>\<open>with open(p, 'wb') as f: f.write(data)\<close>: opening creates the file or truncates
  it; the write stores what fits.
\<close>

definition open_wb :: "world \<Rightarrow> path \<Rightarrow> os_error + world" where
  "open_wb W p =
     (if p = [] then Inl IsADirectoryError
      else case node_at W (parent p) of
        None \<Rightarrow> Inl FileNotFoundError
      | Some (File _) \<Rightarrow> Inl NotADirectoryError
      | Some Dir \<Rightarrow>
          if nodes W p = Some Dir then Inl IsADirectoryError
          else if denied W p then Inl PermissionError
          else Inr (W\<lparr>nodes := (nodes W)(p \<mapsto> File [])\<rparr>))"

definition write_file :: "world \<Rightarrow> path \<Rightarrow> nat list \<Rightarrow> os_error option \<times> world" where
  "write_file W p data =
     (case open_wb W p of
        Inl e \<Rightarrow> (Some e, W)
      | Inr W' \<Rightarrow>
          if length data \<le> disk_free W' then (None, W'\<lparr>nodes := (nodes W')(p \<mapsto> File data)\<rparr>)
          else (Some NoSpaceError,
                W'\<lparr>nodes := (nodes W')(p \<mapsto> File (take (disk_free W') data))\<rparr>))"

section \<open>The program\<close>

definition HEADERS :: "(pystr \<times> pystr) list" where
  \<open>HEADERS =
     [(str ''User-Agent'', str ''Mozilla/5.0 (Macintosh; Intel Mac OS X 10_15_7) AppleWebKit/537.36 (KHTML, like Gecko) Chrome/137.0.0.0 Safari/537.36''),
      (str ''Accept'', str ''text/html,application/xhtml+xml,application/xml;q=0.9,image/avif,image/webp,image/apng,*/*;q=0.8,application/signed-exchange;v=b3;q=0.7''),
      (str ''Accept-Language'', str ''en-US,en;q=0.9''),
      (str ''Cache-Control'', str ''max-age=0''),
      (str ''Sec-Ch-Ua'', str ''"Google Chrome";v="137", "Chromium";v="137", "Not/A)Brand";v="24"''),
      (str ''Sec-Ch-Ua-Mobile'', str ''?0''),
      (str ''Sec-Ch-Ua-Platform'', str ''"macOS"''),
      (str ''Sec-Fetch-Dest'', str ''document''),
      (str ''Sec-Fetch-Mode'', str ''navigate''),
      (str ''Sec-Fetch-Site'', str ''none''),
      (str ''Sec-Fetch-User'', str ''?1''),
      (str ''Upgrade-Insecure-Requests'', str ''1''),
      (str ''Connection'', str ''keep-alive'')]\<close>

text \<open>
  \<^verbatim>\<open>get_audio_token(query)\<close>. The result is the token, \<open>None\<close> for Python's
  \<^verbatim>\<open>None\<close>, or the exception that leaves the function: \<^verbatim>\<open>quote\<close> is called
  before the \<^verbatim>\<open>try\<close>, and the handler catches \<^verbatim>\<open>RequestException\<close> only, not
  what a \<^verbatim>\<open>print\<close> raises. \<open>print_return m v W\<close> is \<^verbatim>\<open>print(m); return v\<close>.
\<close>

definition print_return :: "message \<Rightarrow> 'a \<Rightarrow> world \<Rightarrow> (exn + 'a) \<times> world" where
  "print_return m v W = (case print m W of Inl x \<Rightarrow> (Inl x, W) | Inr W' \<Rightarrow> (Inr v, W'))"

definition page_request :: "pystr \<Rightarrow> request" where
  "page_request encoded_query =
     \<lparr>req_url = str ''https://www.vocabulary.com/dictionary/'' @ encoded_query,
      req_timeout = 10, req_headers = Some HEADERS\<rparr>"

definition get_audio_token :: "ucd \<Rightarrow> world \<Rightarrow> pystr \<Rightarrow> (exn + pystr option) \<times> world" where
  "get_audio_token U W query =
     (case quote (strip U query) of
        Inl e \<Rightarrow> (Inl e, W)
      | Inr encoded_query \<Rightarrow>
          (case requests_get W (page_request encoded_query) of
             (Inl e, W1) \<Rightarrow> print_return (ErrorFetchingPage query e) None W1
           | (Inr response, W1) \<Rightarrow>
               (case raise_for_status response of
                  Some e \<Rightarrow> print_return (ErrorFetchingPage query e) None W1
                | None \<Rightarrow>
                    (case re_search (resp_text response) of
                       Some group1 \<Rightarrow> (Inr (Some group1), W1)
                     | None \<Rightarrow> print_return (NoAudioTokenFound query) None W1))))"

text \<open>
  \<^verbatim>\<open>download_audio(token, query, output_dir)\<close>. \<open>output_dir\<close> is the directory as
  \<^verbatim>\<open>Path(output_dir)\<close> holds it. The result is the boolean returned, or the exception
  that leaves the function: the handler catches \<^verbatim>\<open>RequestException\<close> only, so an
  \<^verbatim>\<open>OSError\<close> of the file system and the \<^verbatim>\<open>UnicodeEncodeError\<close> of a
  \<^verbatim>\<open>print\<close> leave it. The first \<^verbatim>\<open>print\<close> comes before the request.
\<close>

definition audio_request :: "pystr \<Rightarrow> request" where
  "audio_request token =
     \<lparr>req_url = str ''https://audio.vocabulary.com/1.0/us/'' @ token @ str ''.mp3'',
      req_timeout = 30, req_headers = None\<rparr>"

definition download_audio ::
    "ucd \<Rightarrow> world \<Rightarrow> pystr \<Rightarrow> pystr \<Rightarrow> path \<Rightarrow> (exn + bool) \<times> world" where
  "download_audio U W token query output_dir =
     (let output_path = output_dir @ [filename U query]
      in case print (DownloadingAudio query) W of
           Inl x \<Rightarrow> (Inl x, W)
         | Inr W0 \<Rightarrow>
             (case requests_get W0 (audio_request token) of
                (Inl e, W1) \<Rightarrow> print_return (ErrorDownloadingAudio e) False W1
              | (Inr response, W1) \<Rightarrow>
                  (case raise_for_status response of
                     Some e \<Rightarrow> print_return (ErrorDownloadingAudio e) False W1
                   | None \<Rightarrow>
                       (case mkdir_parents W1 (parent output_path) of
                          (Some e, W2) \<Rightarrow> (Inl (OSError e), W2)
                        | (None, W2) \<Rightarrow>
                            (case write_file W2 output_path (resp_content response) of
                               (Some e, W3) \<Rightarrow> (Inl (OSError e), W3)
                             | (None, W3) \<Rightarrow>
                                 print_return (SuccessfullySaved output_path) True W3)))))"

text \<open>
  \<^verbatim>\<open>main()\<close> after the arguments are parsed: \<open>query\<close> is \<^verbatim>\<open>args.query\<close> and
  \<open>output_dir\<close> is \<^verbatim>\<open>args.output_dir\<close>. The process ends by \<^verbatim>\<open>sys.exit(1)\<close>,
  by reaching the end of \<^verbatim>\<open>main\<close>, or by an exception nothing catches, which the
  interpreter reports with a traceback and the exit status 1.
\<close>

datatype outcome = Exit nat | Uncaught exn

fun exit_status :: "outcome \<Rightarrow> nat" where
  "exit_status (Exit n) = n"
| "exit_status (Uncaught e) = 1"

definition main :: "ucd \<Rightarrow> world \<Rightarrow> pystr \<Rightarrow> path \<Rightarrow> outcome \<times> world" where
  "main U W query output_dir =
     (case get_audio_token U W query of
        (Inl e, W1) \<Rightarrow> (Uncaught e, W1)
      | (Inr None, W1) \<Rightarrow> (Exit 1, W1)
      | (Inr (Some token), W1) \<Rightarrow>
          if token = [] then (Exit 1, W1)
          else
            (case print (FoundAudioToken token) W1 of
               Inl x \<Rightarrow> (Uncaught x, W1)
             | Inr W1' \<Rightarrow>
                 (case download_audio U W1' token query output_dir of
                    (Inl e, W2) \<Rightarrow> (Uncaught e, W2)
                  | (Inr success, W2) \<Rightarrow>
                      if \<not> success then (Exit 1, W2)
                      else (case print Done W2 of
                              Inl x \<Rightarrow> (Uncaught x, W2)
                            | Inr W3 \<Rightarrow> (Exit 0, W3)))))"

section \<open>Terms of the specification and example worlds\<close>

text \<open>
  A quoted token occurs in a text behind the prefix \<open>pre\<close>: the text goes on with a
  quotation mark, the token and a quotation mark.
\<close>

definition occurs :: "pystr \<Rightarrow> pystr \<Rightarrow> pystr \<Rightarrow> bool" where
  "occurs body pre t = (token_shape t \<and> prefix (pre @ 34 # t @ [34]) body)"

text \<open>
  A page that carries the token of the documentation and a second quoted match behind it,
  a server that answers every request with this page and three bytes of audio, and a
  world with nothing sent, nothing printed and room on the disk.
\<close>

definition example_page :: pystr where
  \<open>example_page = str ''<a data-audio="C/BNUT8S5S2HDK"></a><i id="D/77">''\<close>

definition serve_page :: "request \<Rightarrow> request_exception + response" where
  "serve_page req = Inr \<lparr>status_code = 200, resp_text = example_page, resp_content = [73, 68, 51]\<rparr>"

definition fresh_world ::
    "(request \<Rightarrow> request_exception + response) \<Rightarrow> (path \<Rightarrow> node option) \<Rightarrow> world" where
  "fresh_world h fs =
     \<lparr>http = h, sent = [], nodes = fs, denied = (\<lambda>p. False), disk_free = 1000, stdout = []\<rparr>"

text \<open>Two worlds that differ in the file system at most.\<close>

definition same_but_nodes :: "world \<Rightarrow> world \<Rightarrow> bool" where
  "same_but_nodes W W' = (\<exists>fs. W' = W\<lparr>nodes := fs\<rparr>)"

text \<open>
  The world of \<^verbatim>\<open>download_audio\<close> once the download is announced and the request
  is sent.
\<close>

definition announced :: "world \<Rightarrow> pystr \<Rightarrow> pystr \<Rightarrow> world" where
  "announced W token query =
     (say (DownloadingAudio query) W)
       \<lparr>sent := sent (say (DownloadingAudio query) W) @ [audio_request token]\<rparr>"

text \<open>A server whose page carries no token.\<close>

definition plain_page :: "request \<Rightarrow> request_exception + response" where
  "plain_page req =
     Inr \<lparr>status_code = 200, resp_text = str ''<html>no audio here</html>'', resp_content = []\<rparr>"

text \<open>A server that has the page but answers 404 on the audio host.\<close>

definition audio_missing :: "request \<Rightarrow> request_exception + response" where
  "audio_missing req =
     (if prefix (str ''https://audio.'') (req_url req)
      then Inr \<lparr>status_code = 404, resp_text = str ''Not Found'', resp_content = []\<rparr>
      else serve_page req)"

text \<open>A file system is a tree: whatever exists lies in a directory.\<close>

definition tree_shaped :: "world \<Rightarrow> bool" where
  "tree_shaped W = (\<forall>p. p \<noteq> [] \<longrightarrow> nodes W p \<noteq> None \<longrightarrow> is_dir W (parent p))"

text \<open>
  What creating the directory \<open>p\<close> may change: nothing but missing prefixes of \<open>p\<close>,
  which become directories.
\<close>

definition grown :: "world \<Rightarrow> path \<Rightarrow> world \<Rightarrow> bool" where
  "grown W p W' =
     (same_but_nodes W W' \<and>
      (\<forall>q. nodes W' q = nodes W q \<or> (prefix q p \<and> nodes W q = None \<and> nodes W' q = Some Dir)))"

text \<open>
  Nothing stands in the way of the directory \<open>p\<close>: every segment on the way is a
  directory already, or is missing and the operating system lets it be created.
\<close>

definition creatable :: "world \<Rightarrow> path \<Rightarrow> bool" where
  "creatable W p =
     (\<forall>q. prefix q p \<longrightarrow> q \<noteq> [] \<longrightarrow>
        nodes W q = Some Dir \<or> (nodes W q = None \<and> \<not> denied W q))"

text \<open>A file system in which the name of the output directory is taken by a file.\<close>

definition file_in_the_way :: "path \<Rightarrow> node option" where
  "file_in_the_way = Map.empty([str ''out''] \<mapsto> File [])"

text \<open>
  A plain name is what a directory entry can be called: not empty, not \<^verbatim>\<open>.\<close> or
  \<^verbatim>\<open>..\<close>, and without slash and NUL. On a path of plain names the segments are the
  directories on the way, as the model has them.
\<close>

definition plain_name :: "pystr \<Rightarrow> bool" where
  "plain_name s = (s \<noteq> [] \<and> s \<noteq> str ''.'' \<and> s \<noteq> str ''..'' \<and> 47 \<notin> set s \<and> 0 \<notin> set s)"

definition plain_path :: "path \<Rightarrow> bool" where
  "plain_path p = list_all plain_name p"

section \<open>Properties of the substitutions\<close>

lemma re_sub_class_filter: "re_sub_class P [] s = filter (\<lambda>c. \<not> P c) s"
  by (induction s) auto

lemma re_sub_plus_clean: "\<forall>c \<in> set s. \<not> P c \<Longrightarrow> re_sub_plus P repl s = s"
  by (induction s) auto

lemma dropWhile_run: "\<forall>c \<in> set run. P c \<Longrightarrow> (b = [] \<or> \<not> P (hd b)) \<Longrightarrow> dropWhile P (run @ b) = b"
  by (induction run) (cases b; simp)+

lemma re_sub_plus_run:
  assumes "run \<noteq> []" and "\<forall>c \<in> set run. P c" and "b = [] \<or> \<not> P (hd b)"
  shows "re_sub_plus P repl (run @ b) = repl @ re_sub_plus P repl b"
proof -
  from assms(1) obtain c cs where run: "run = c # cs"
    by (cases run) auto
  with assms(2) have "P c" and "\<forall>x \<in> set cs. P x"
    by auto
  then have "dropWhile P (cs @ b) = b"
    using assms(3) by (intro dropWhile_run)
  with \<open>P c\<close> show ?thesis
    by (simp add: run)
qed

lemma re_sub_plus_append:
  assumes "\<forall>c \<in> set a. \<not> P c"
  shows "re_sub_plus P repl (a @ s) = a @ re_sub_plus P repl s"
  using assms by (induction a) auto

lemma re_sub_plus_chars:
  "x \<in> set (re_sub_plus P repl s) \<Longrightarrow> x \<in> set repl \<or> (x \<in> set s \<and> \<not> P x)"
proof (induction P repl s rule: re_sub_plus.induct)
  case (1 P repl)
  then show ?case by simp
next
  case (2 P repl c cs)
  show ?case
  proof (cases "P c")
    case True
    with 2 have "x \<in> set repl \<or> x \<in> set (re_sub_plus P repl (dropWhile P cs))"
      by auto
    with 2 True show ?thesis
      by (auto dest: set_dropWhileD)
  next
    case False
    with 2 show ?thesis by auto
  qed
qed

lemma safe_filename_chars:
  assumes "x \<in> set (safe_filename U query)"
  shows "py_isalnum U x \<or> x = 95"
proof -
  let ?kept = "re_sub_class (special U) [] (strip U query)"
  from assms have "x \<in> set (str ''_'') \<or> (x \<in> set ?kept \<and> \<not> separator U x)"
    unfolding safe_filename_def by (rule re_sub_plus_chars)
  then show ?thesis
  proof
    assume "x \<in> set (str ''_'')"
    then show ?thesis by (simp add: str_def)
  next
    assume kept: "x \<in> set ?kept \<and> \<not> separator U x"
    then have "\<not> special U x"
      by (simp add: re_sub_class_filter)
    with kept show ?thesis
      by (auto simp: special_def separator_def re_word_def)
  qed
qed

lemmas class_defs = scalar_value_def py_isspace_def py_isalnum_def re_word_def re_space_def special_def
  separator_def strip_def

lemma collapse_runs_head:
  "P c \<Longrightarrow> collapse_runs P (c # cs) = 95 # collapse_runs P (dropWhile P cs)"
  by (induction cs arbitrary: c) auto

lemma collapse_runs_keep:
  "\<not> P c \<Longrightarrow> collapse_runs P (c # cs) = c # collapse_runs P cs"
  by (cases cs) auto

lemma re_sub_plus_collapse: "re_sub_plus P [95] s = collapse_runs P s"
  by (induction P "[95::nat]" s rule: re_sub_plus.induct)
     (auto simp: collapse_runs_head collapse_runs_keep)

section \<open>The filename claims\<close>

text \<open>
  Claim C1, as the code has it. The filename is the stem followed by \<^verbatim>\<open>.mp3\<close>. The stem
  is obtained from the trimmed query by keeping the word characters (alphanumeric, or the
  underscore), the whitespace and the hyphens, and then collapsing every run of hyphens
  and whitespace into one underscore. Every character of the stem is alphanumeric or an
  underscore. Alphanumeric is Python's Unicode-aware notion, the one \<^verbatim>\<open>\w\<close> uses.
\<close>

theorem filename_derivation:
  "filename U query = safe_filename U query @ str ''.mp3''
   \<and> safe_filename U query =
       collapse_runs (\<lambda>c. c = 45 \<or> py_isspace U c)
         (filter (\<lambda>c. py_isalnum U c \<or> c = 95 \<or> py_isspace U c \<or> c = 45) (strip U query))
   \<and> (\<forall>x \<in> set (safe_filename U query). py_isalnum U x \<or> x = 95)"
proof (intro conjI ballI)
  show "filename U query = safe_filename U query @ str ''.mp3''"
    by (simp add: filename_def)
next
  have sep: "separator U = (\<lambda>c. c = 45 \<or> py_isspace U c)"
    by (rule ext) (simp add: separator_def re_space_def)
  have keep: "(\<lambda>c. \<not> special U c) = (\<lambda>c. py_isalnum U c \<or> c = 95 \<or> py_isspace U c \<or> c = 45)"
    by (rule ext) (auto simp: special_def re_word_def re_space_def)
  have "str ''_'' = [95]"
    by (simp add: str_def)
  then show "safe_filename U query =
       collapse_runs (\<lambda>c. c = 45 \<or> py_isspace U c)
         (filter (\<lambda>c. py_isalnum U c \<or> c = 95 \<or> py_isspace U c \<or> c = 45) (strip U query))"
    by (simp add: safe_filename_def re_sub_class_filter re_sub_plus_collapse sep keep)
next
  fix x
  assume "x \<in> set (safe_filename U query)"
  then show "py_isalnum U x \<or> x = 95"
    by (rule safe_filename_chars)
qed

text \<open>
  The query \<^verbatim>\<open>caf\<close>+U+00E9+\<^verbatim>\<open>, mon  ami!\<close>: the letter beyond ASCII is alphanumeric and
  stays, the punctuation goes, and both runs of spaces become one underscore each.
\<close>

theorem filename_derivation_witness:
  "filename latin1_ucd ([99, 97, 102, 233] @ str '', mon  ami!'')
     = [99, 97, 102, 233] @ str ''_mon_ami.mp3''
   \<and> 233 \<in> set (safe_filename latin1_ucd ([99, 97, 102, 233] @ str '', mon  ami!''))
   \<and> (py_isalnum latin1_ucd 233 \<or> (233::nat) = 95)"
proof -
  have stem: "safe_filename latin1_ucd ([99, 97, 102, 233] @ str '', mon  ami!'')
      = [99, 97, 102, 233] @ str ''_mon_ami''"
    by (simp add: safe_filename_def class_defs latin1_ucd_def str_def)
  then have mem: "233 \<in> set (safe_filename latin1_ucd ([99, 97, 102, 233] @ str '', mon  ami!''))"
    by simp
  from filename_derivation [of latin1_ucd "[99, 97, 102, 233] @ str '', mon  ami!''"] stem mem
  show ?thesis
    by (auto simp: str_def)
qed

text \<open>
  The underscore is neither alphanumeric, whitespace nor hyphen, and the code keeps it:
  for \<^verbatim>\<open>a_b\<close> the code names the file \<^verbatim>\<open>a_b.mp3\<close>, the derivation in the
  specification's words gives \<^verbatim>\<open>ab.mp3\<close>.
\<close>

theorem filename_underscore_counterexample:
  "filename ascii_ucd (str ''a_b'') = str ''a_b.mp3''
   \<and> spec_filename ascii_ucd (str ''a_b'') = str ''ab.mp3''"
  by (simp add: filename_def safe_filename_def spec_filename_def spec_keeps_def class_defs
      ascii_ucd_def str_def)

text \<open>
  Claim C8. The query \<^verbatim>\<open>machine learning\<close> gives the filename
  \<^verbatim>\<open>machine_learning.mp3\<close>, whatever the Unicode database says beyond ASCII.
\<close>

theorem machine_learning_filename:
  "filename U (str ''machine learning'') = str ''machine_learning.mp3''"
  by (simp add: filename_def safe_filename_def class_defs str_def)

text \<open>
  The filename holds no slash: it is one path segment, and the parent of the output path
  is the output directory.
\<close>

lemma filename_one_segment: "47 \<notin> set (filename U query)"
proof
  assume "47 \<in> set (filename U query)"
  then have "47 \<in> set (safe_filename U query)"
    by (simp add: filename_def str_def)
  then have "py_isalnum U 47 \<or> (47::nat) = 95"
    by (rule safe_filename_chars)
  then show False
    by (simp add: py_isalnum_def)
qed

lemma parent_output_path: "parent (output_dir @ [filename U query]) = output_dir"
  by (simp add: parent_def)

section \<open>The token pattern: first match\<close>

lemma quote_not_upper_digit: "\<not> is_upper_digit 34"
  by (simp add: is_upper_digit_def is_upper_def)

lemma run_then_quote_sound:
  "run_then_quote s = Some r \<Longrightarrow>
     r \<noteq> [] \<and> list_all is_upper_digit r \<and> (\<exists>post. s = r @ 34 # post)"
proof (induction s arbitrary: r)
  case Nil
  then show ?case by simp
next
  case (Cons c cs)
  from Cons.prems have c: "is_upper_digit c"
    by (simp split: if_splits)
  show ?case
  proof (cases "run_then_quote cs")
    case None
    with Cons.prems c obtain rest where "cs = 34 # rest" and "r = [c]"
      by (auto split: list.splits if_splits)
    with c show ?thesis by simp
  next
    case (Some r')
    with Cons.prems c have r: "r = c # r'"
      by simp
    from Cons.IH [OF Some] c show ?thesis
      by (auto simp: r)
  qed
qed

lemma run_then_quote_complete:
  "r \<noteq> [] \<Longrightarrow> list_all is_upper_digit r \<Longrightarrow> run_then_quote (r @ 34 # post) = Some r"
proof (induction r)
  case Nil
  then show ?case by simp
next
  case (Cons c r)
  show ?case
  proof (cases r)
    case Nil
    with Cons.prems show ?thesis
      by (simp add: quote_not_upper_digit)
  next
    case (Cons d ds)
    with Cons.prems Cons.IH show ?thesis
      by simp
  qed
qed

lemma run_then_quote_iff:
  "run_then_quote s = Some r \<longleftrightarrow>
     r \<noteq> [] \<and> list_all is_upper_digit r \<and> (\<exists>post. s = r @ 34 # post)"
  using run_then_quote_sound run_then_quote_complete by blast

lemma token_shape_iff:
  "token_shape t \<longleftrightarrow>
     (\<exists>u r. t = u # 47 # r \<and> is_upper u \<and> r \<noteq> [] \<and> list_all is_upper_digit r)"
  by (induction t rule: token_shape.induct) auto

lemma match_at_iff:
  "match_at s = Some t \<longleftrightarrow> token_shape t \<and> (\<exists>post. s = 34 # t @ 34 # post)"
proof
  assume m: "match_at s = Some t"
  then obtain u rest r where s: "s = 34 # u # 47 # rest" and u: "is_upper u"
    and r: "run_then_quote rest = Some r" and t: "t = u # 47 # r"
    by (induction s rule: match_at.induct) (auto split: if_splits)
  from r have "r \<noteq> [] \<and> list_all is_upper_digit r \<and> (\<exists>post. rest = r @ 34 # post)"
    by (rule run_then_quote_sound)
  with s u t show "token_shape t \<and> (\<exists>post. s = 34 # t @ 34 # post)"
    by (auto simp: token_shape_iff)
next
  assume "token_shape t \<and> (\<exists>post. s = 34 # t @ 34 # post)"
  then obtain u r post where "t = u # 47 # r" "is_upper u" "r \<noteq> []" "list_all is_upper_digit r"
    "s = 34 # t @ 34 # post"
    by (auto simp: token_shape_iff)
  then show "match_at s = Some t"
    by (simp add: run_then_quote_complete)
qed

lemma occurs_iff:
  "occurs body pre t \<longleftrightarrow> token_shape t \<and> (\<exists>post. body = pre @ 34 # t @ 34 # post)"
  by (simp add: occurs_def prefix_def)

lemma occurs_Nil: "occurs s [] t \<longleftrightarrow> match_at s = Some t"
  by (simp add: occurs_iff match_at_iff)

lemma occurs_shift:
  assumes "match_at (c # cs) = None"
  shows "occurs (c # cs) pre t \<longleftrightarrow> (\<exists>p. pre = c # p \<and> occurs cs p t)"
proof (cases pre)
  case Nil
  with assms show ?thesis by (simp add: occurs_Nil)
next
  case (Cons a p)
  then show ?thesis by (auto simp: occurs_iff)
qed

lemma re_search_Some_iff:
  "re_search s = Some t \<longleftrightarrow>
     (\<exists>pre. occurs s pre t \<and> (\<forall>pre' t'. occurs s pre' t' \<longrightarrow> length pre \<le> length pre'))"
proof (induction s)
  case Nil
  then show ?case by (simp add: occurs_iff)
next
  case (Cons c cs)
  show ?case
  proof (cases "match_at (c # cs)")
    case (Some t0)
    then have occ0: "occurs (c # cs) [] t0"
      by (simp add: occurs_Nil)
    show ?thesis
    proof
      assume "re_search (c # cs) = Some t"
      with Some have "t = t0" by simp
      with occ0 show "\<exists>pre. occurs (c # cs) pre t \<and> (\<forall>pre' t'. occurs (c # cs) pre' t' \<longrightarrow> length pre \<le> length pre')"
        by (intro exI [of _ "[]"]) simp
    next
      assume "\<exists>pre. occurs (c # cs) pre t \<and> (\<forall>pre' t'. occurs (c # cs) pre' t' \<longrightarrow> length pre \<le> length pre')"
      then obtain pre where occ: "occurs (c # cs) pre t"
        and least: "\<forall>pre' t'. occurs (c # cs) pre' t' \<longrightarrow> length pre \<le> length pre'"
        by blast
      from least occ0 have "pre = []" by fastforce
      with occ have "match_at (c # cs) = Some t"
        by (simp add: occurs_Nil)
      with Some show "re_search (c # cs) = Some t" by simp
    qed
  next
    case None
    then have shift: "occurs (c # cs) pre t' \<longleftrightarrow> (\<exists>p. pre = c # p \<and> occurs cs p t')" for pre t'
      by (rule occurs_shift)
    from None have "re_search (c # cs) = Some t \<longleftrightarrow> re_search cs = Some t"
      by simp
    also have "\<dots> \<longleftrightarrow> (\<exists>p. occurs cs p t \<and> (\<forall>p' t'. occurs cs p' t' \<longrightarrow> length p \<le> length p'))"
      by (rule Cons.IH)
    also have "\<dots> \<longleftrightarrow> (\<exists>pre. occurs (c # cs) pre t \<and> (\<forall>pre' t'. occurs (c # cs) pre' t' \<longrightarrow> length pre \<le> length pre'))"
    proof
      assume "\<exists>p. occurs cs p t \<and> (\<forall>p' t'. occurs cs p' t' \<longrightarrow> length p \<le> length p')"
      then obtain p where p: "occurs cs p t" "\<forall>p' t'. occurs cs p' t' \<longrightarrow> length p \<le> length p'"
        by blast
      then have "occurs (c # cs) (c # p) t"
        by (simp add: shift)
      moreover have "\<forall>pre' t'. occurs (c # cs) pre' t' \<longrightarrow> length (c # p) \<le> length pre'"
        using p(2) by (auto simp: shift)
      ultimately show "\<exists>pre. occurs (c # cs) pre t \<and> (\<forall>pre' t'. occurs (c # cs) pre' t' \<longrightarrow> length pre \<le> length pre')"
        by blast
    next
      assume "\<exists>pre. occurs (c # cs) pre t \<and> (\<forall>pre' t'. occurs (c # cs) pre' t' \<longrightarrow> length pre \<le> length pre')"
      then obtain pre where pre: "occurs (c # cs) pre t"
        "\<forall>pre' t'. occurs (c # cs) pre' t' \<longrightarrow> length pre \<le> length pre'"
        by blast
      from pre(1) obtain p where p: "pre = c # p" "occurs cs p t"
        by (auto simp: shift)
      have "length p \<le> length p'" if "occurs cs p' t'" for p' t'
      proof -
        from that have "occurs (c # cs) (c # p') t'"
          by (simp add: shift)
        with pre(2) have "length pre \<le> length (c # p')"
          by blast
        with p(1) show ?thesis by simp
      qed
      with p(2) show "\<exists>p. occurs cs p t \<and> (\<forall>p' t'. occurs cs p' t' \<longrightarrow> length p \<le> length p')"
        by blast
    qed
    finally show ?thesis .
  qed
qed

lemma re_search_None_iff: "re_search s = None \<longleftrightarrow> (\<forall>pre t. \<not> occurs s pre t)"
proof (induction s)
  case Nil
  then show ?case by (simp add: occurs_iff)
next
  case (Cons c cs)
  show ?case
  proof (cases "match_at (c # cs)")
    case (Some t0)
    then have "occurs (c # cs) [] t0"
      by (simp add: occurs_Nil)
    with Some show ?thesis by auto
  next
    case None
    then have shift: "occurs (c # cs) pre t' \<longleftrightarrow> (\<exists>p. pre = c # p \<and> occurs cs p t')" for pre t'
      by (rule occurs_shift)
    from None Cons.IH show ?thesis
      by (auto simp: shift)
  qed
qed


lemma token_chars:
  assumes "token_shape t" and "x \<in> set (34 # t @ [34])"
  shows "x = 34 \<or> x = 47 \<or> is_upper_digit x"
  using assms by (auto simp: token_shape_iff is_upper_digit_def list_all_iff)

lemma match_at_append_stop:
  assumes stop: "d \<noteq> 34" "d \<noteq> 47" "\<not> is_upper_digit d"
    and none: "match_at xs = None" and ne: "xs \<noteq> []"
  shows "match_at (xs @ d # rest) = None"
proof (rule ccontr)
  assume "match_at (xs @ d # rest) \<noteq> None"
  then obtain t where "match_at (xs @ d # rest) = Some t"
    by blast
  then obtain post where t: "token_shape t" and eq: "xs @ d # rest = (34 # t @ [34]) @ post"
    by (auto simp: match_at_iff)
  from eq obtain us where "(xs = (34 # t @ [34]) @ us \<and> us @ d # rest = post)
      \<or> (xs @ us = 34 # t @ [34] \<and> d # rest = us @ post)"
    unfolding append_eq_append_conv2 by blast
  then show False
  proof
    assume "xs = (34 # t @ [34]) @ us \<and> us @ d # rest = post"
    with t have "match_at xs = Some t"
      by (simp add: match_at_iff)
    with none show False by simp
  next
    assume split: "xs @ us = 34 # t @ [34] \<and> d # rest = us @ post"
    show False
    proof (cases us)
      case Nil
      with split t have "match_at xs = Some t"
        by (simp add: match_at_iff)
      with none show False by simp
    next
      case (Cons a as)
      with split have "d \<in> set (34 # t @ [34])"
        by (metis append_Cons in_set_conv_decomp list.sel(1))
      with t stop show False
        by (blast dest: token_chars)
    qed
  qed
qed

lemma re_search_append_stop:
  assumes stop: "d \<noteq> 34" "d \<noteq> 47" "\<not> is_upper_digit d"
  shows "re_search pre = None \<Longrightarrow> re_search (pre @ d # rest) = re_search (d # rest)"
proof (induction pre)
  case Nil
  then show ?case by simp
next
  case (Cons c cs)
  from Cons.prems have none: "match_at (c # cs) = None" and rest: "re_search cs = None"
    by (auto split: option.splits)
  from stop none have "match_at ((c # cs) @ d # rest) = None"
    by (rule match_at_append_stop) simp
  with Cons.IH [OF rest] show ?case
    by simp
qed

lemma re_search_data_audio:
  \<open>re_search (str ''data-audio="C/BNUT8S5S2HDK"'' @ post) = Some (str ''C/BNUT8S5S2HDK'')\<close>
  by (simp add: str_def is_upper_def is_upper_digit_def)

section \<open>What standard output can print\<close>

lemma utf8_char_None_iff: "utf8_char c = None \<longleftrightarrow> \<not> scalar_value c"
  by (auto simp: utf8_char_def scalar_value_def)

lemma utf8_encode_None_iff: "utf8_encode s = None \<longleftrightarrow> (\<exists>c \<in> set s. \<not> scalar_value c)"
proof (induction s)
  case Nil
  then show ?case by simp
next
  case (Cons c cs)
  show ?case
  proof (cases "utf8_char c")
    case None
    then have "\<not> scalar_value c"
      by (simp add: utf8_char_None_iff)
    with None show ?thesis by simp
  next
    case (Some bs)
    then have "scalar_value c"
      using utf8_char_None_iff [of c] by auto
    with Some Cons.IH show ?thesis by simp
  qed
qed

lemma whitespace_scalar: "py_isspace U c \<Longrightarrow> scalar_value c"
  by (auto simp: py_isspace_def scalar_value_def split: if_splits)

lemma dropWhile_keeps: "x \<in> set s \<Longrightarrow> P x \<or> x \<in> set (dropWhile P s)"
  by (induction s) auto

lemma strip_keeps:
  assumes "x \<in> set s"
  shows "py_isspace U x \<or> x \<in> set (strip U s)"
proof -
  let ?d = "dropWhile (py_isspace U) s"
  from assms have "py_isspace U x \<or> x \<in> set (rev ?d)"
    using dropWhile_keeps [of x s "py_isspace U"] by simp
  then have "py_isspace U x \<or> x \<in> set (dropWhile (py_isspace U) (rev ?d))"
    using dropWhile_keeps [of x "rev ?d" "py_isspace U"] by blast
  then show ?thesis
    by (simp add: strip_def)
qed

text \<open>
  A query that \<^verbatim>\<open>quote\<close> accepted after trimming can be printed: what the trimming
  removed is whitespace, and whitespace has an encoding.
\<close>

lemma quoted_query_printable:
  assumes "quote (strip U query) = Inr enc"
  shows "utf8_encode query \<noteq> None"
proof -
  from assms have "utf8_encode (strip U query) \<noteq> None"
    by (auto simp: quote_def split: option.splits)
  then have kept: "\<forall>c \<in> set (strip U query). scalar_value c"
    by (simp add: utf8_encode_None_iff)
  have "scalar_value c" if "c \<in> set query" for c
    using strip_keeps [OF that, of U] kept whitespace_scalar [of U c] by blast
  then show ?thesis
    by (simp add: utf8_encode_None_iff)
qed

lemma token_printable:
  assumes "token_shape t"
  shows "utf8_encode t \<noteq> None"
proof -
  have "scalar_value c" if "c \<in> set t" for c
  proof -
    from that have "c \<in> set (34 # t @ [34])"
      by simp
    with assms have "c = 34 \<or> c = 47 \<or> is_upper_digit c"
      by (rule token_chars)
    then show ?thesis
      by (auto simp: is_upper_digit_def is_upper_def scalar_value_def)
  qed
  then show ?thesis
    by (simp add: utf8_encode_None_iff)
qed

lemma printable_simps:
  "printable (NoAudioTokenFound query) \<longleftrightarrow> utf8_encode query \<noteq> None"
  "printable (ErrorFetchingPage query e) \<longleftrightarrow> utf8_encode query \<noteq> None"
  "printable (FoundAudioToken token) \<longleftrightarrow> utf8_encode token \<noteq> None"
  "printable (DownloadingAudio query) \<longleftrightarrow> utf8_encode query \<noteq> None"
  "printable (SuccessfullySaved output_path) \<longleftrightarrow> utf8_encode (concat output_path) \<noteq> None"
  "printable (ErrorDownloadingAudio e')"
  "printable Done"
  by (simp_all add: printable_def)

lemma print_printable: "printable m \<Longrightarrow> print m W = Inr (say m W)"
  by (simp add: print_def)

lemma print_unprintable: "\<not> printable m \<Longrightarrow> print m W = Inl UnicodeEncodeError"
  by (simp add: print_def)

lemma print_return_printable: "printable m \<Longrightarrow> print_return m v W = (Inr v, say m W)"
  by (simp add: print_return_def print_def)

lemma print_return_unprintable:
  "\<not> printable m \<Longrightarrow> print_return m v W = (Inl UnicodeEncodeError, W)"
  by (simp add: print_return_def print_def)

lemma say_fields:
  "http (say m W) = http W"
  "sent (say m W) = sent W"
  "nodes (say m W) = nodes W"
  "denied (say m W) = denied W"
  "disk_free (say m W) = disk_free W"
  "stdout (say m W) = stdout W @ [m]"
  by (simp_all add: say_def)

lemma get_audio_token_fetched:
  assumes "quote (strip U query) = Inr enc"
    and "http W (page_request enc) = Inr r"
    and "raise_for_status r = None"
  shows "get_audio_token U W query =
    (case re_search (resp_text r) of
       Some t \<Rightarrow> (Inr (Some t), W\<lparr>sent := sent W @ [page_request enc]\<rparr>)
     | None \<Rightarrow> (Inr None, say (NoAudioTokenFound query) (W\<lparr>sent := sent W @ [page_request enc]\<rparr>)))"
proof -
  from assms(1) have "printable (NoAudioTokenFound query)"
    by (simp add: printable_simps quoted_query_printable)
  with assms show ?thesis
    by (simp add: get_audio_token_def requests_get_def print_return_printable
        split: option.splits)
qed

text \<open>
  Claim C2. When the page is fetched, the resolver returns exactly the first quoted
  substring of the token shape: the token \<open>t\<close> is returned if and only if it occurs
  quoted in the body and no quoted token occurs further left. In particular, when the
  text before \<^verbatim>\<open>data-audio="C/BNUT8S5S2HDK"\<close> holds no match, that token is returned,
  whatever follows it.
\<close>

theorem get_audio_token_first_match:
  assumes "quote (strip U query) = Inr enc"
    and "http W (page_request enc) = Inr r"
    and "raise_for_status r = None"
  shows \<open>(\<forall>t. fst (get_audio_token U W query) = Inr (Some t) \<longleftrightarrow>
            (\<exists>pre. occurs (resp_text r) pre t
               \<and> (\<forall>pre' t'. occurs (resp_text r) pre' t' \<longrightarrow> length pre \<le> length pre')))
     \<and> (\<forall>pre post. resp_text r = pre @ str ''data-audio="C/BNUT8S5S2HDK"'' @ post
            \<and> (\<forall>p t. \<not> occurs pre p t)
          \<longrightarrow> fst (get_audio_token U W query) = Inr (Some (str ''C/BNUT8S5S2HDK'')))\<close>
proof (intro conjI allI impI)
  fix t
  have "fst (get_audio_token U W query) = Inr (Some t) \<longleftrightarrow> re_search (resp_text r) = Some t"
    by (simp add: get_audio_token_fetched [OF assms] split: option.splits)
  then show "fst (get_audio_token U W query) = Inr (Some t) \<longleftrightarrow>
            (\<exists>pre. occurs (resp_text r) pre t
               \<and> (\<forall>pre' t'. occurs (resp_text r) pre' t' \<longrightarrow> length pre \<le> length pre'))"
    by (simp only: re_search_Some_iff)
next
  fix pre post
  assume a: \<open>resp_text r = pre @ str ''data-audio="C/BNUT8S5S2HDK"'' @ post
            \<and> (\<forall>p t. \<not> occurs pre p t)\<close>
  then have none: "re_search pre = None"
    by (simp add: re_search_None_iff)
  have \<open>str ''data-audio="C/BNUT8S5S2HDK"'' @ post = 100 # (str ''ata-audio="C/BNUT8S5S2HDK"'' @ post)\<close>
    by (simp add: str_def)
  with a have \<open>re_search (resp_text r) = re_search (100 # (str ''ata-audio="C/BNUT8S5S2HDK"'' @ post))\<close>
    using re_search_append_stop [OF _ _ _ none, of 100]
    by (simp add: is_upper_digit_def is_upper_def)
  also have \<open>\<dots> = re_search (str ''data-audio="C/BNUT8S5S2HDK"'' @ post)\<close>
    by (simp add: str_def)
  also have \<open>\<dots> = Some (str ''C/BNUT8S5S2HDK'')\<close>
    by (rule re_search_data_audio)
  finally show \<open>fst (get_audio_token U W query) = Inr (Some (str ''C/BNUT8S5S2HDK''))\<close>
    by (simp add: get_audio_token_fetched [OF assms])
qed


lemmas quote_defs = quote_def utf8_char_def quote_byte_def always_safe_def hex_digit_def

theorem get_audio_token_first_match_witness:
  \<open>fst (get_audio_token ascii_ucd (fresh_world serve_page Map.empty) (str ''Capricorn''))
     = Inr (Some (str ''C/BNUT8S5S2HDK''))
   \<and> occurs example_page (str ''<a data-audio='') (str ''C/BNUT8S5S2HDK'')
   \<and> occurs example_page (str ''<a data-audio="C/BNUT8S5S2HDK"></a><i id='') (str ''D/77'')\<close>
proof -
  let ?W = "fresh_world serve_page Map.empty"
  let ?r = "\<lparr>status_code = 200, resp_text = example_page, resp_content = [73, 68, 51]\<rparr>"
  have q: "quote (strip ascii_ucd (str ''Capricorn'')) = Inr (str ''Capricorn'')"
    by (simp add: quote_defs class_defs str_def)
  have h: "http ?W (page_request (str ''Capricorn'')) = Inr ?r"
    by (simp add: fresh_world_def serve_page_def)
  have ok: "raise_for_status ?r = None"
    by (simp add: raise_for_status_def)
  have "re_search (str ''<a '') = None"
    by (simp add: str_def)
  then have first: "\<forall>p t. \<not> occurs (str ''<a '') p t"
    by (simp add: re_search_None_iff)
  have split: \<open>resp_text ?r = str ''<a '' @ str ''data-audio="C/BNUT8S5S2HDK"'' @ str ''></a><i id="D/77">''\<close>
    by (simp add: example_page_def str_def)
  from get_audio_token_first_match [OF q h ok] split first
  have "fst (get_audio_token ascii_ucd ?W (str ''Capricorn'')) = Inr (Some (str ''C/BNUT8S5S2HDK''))"
    by blast
  moreover have \<open>occurs example_page (str ''<a data-audio='') (str ''C/BNUT8S5S2HDK'')\<close>
    by (simp add: occurs_def example_page_def str_def is_upper_def is_upper_digit_def)
  moreover have \<open>occurs example_page (str ''<a data-audio="C/BNUT8S5S2HDK"></a><i id='') (str ''D/77'')\<close>
    by (simp add: occurs_def example_page_def str_def is_upper_def is_upper_digit_def)
  ultimately show ?thesis
    by blast
qed

section \<open>What the file-system calls leave alone\<close>

lemma os_mkdir_Inr:
  "os_mkdir W p = Inr W' \<Longrightarrow>
     W' = W\<lparr>nodes := (nodes W)(p \<mapsto> Dir)\<rparr> \<and> p \<noteq> [] \<and> is_dir W (parent p)
       \<and> nodes W p = None \<and> \<not> denied W p"
  by (auto simp: os_mkdir_def is_dir_def split: if_splits option.splits node.splits)

lemma mkdir_flat_cases:
  assumes "mkdir_flat W p = (e, W')"
  shows "W' = W \<or> (W' = W\<lparr>nodes := (nodes W)(p \<mapsto> Dir)\<rparr> \<and> nodes W p = None \<and> e = None)"
proof (cases "os_mkdir W p")
  case (Inl err)
  with assms show ?thesis
    by (auto simp: mkdir_flat_def split: if_splits)
next
  case (Inr W'')
  with assms have "W' = W''" "e = None"
    by (auto simp: mkdir_flat_def)
  with os_mkdir_Inr [OF Inr] show ?thesis
    by simp
qed

lemma same_but_nodes_refl: "same_but_nodes W W"
  unfolding same_but_nodes_def by (rule exI [of _ "nodes W"]) simp

lemma same_but_nodes_trans:
  "same_but_nodes W W' \<Longrightarrow> same_but_nodes W' W'' \<Longrightarrow> same_but_nodes W W''"
  unfolding same_but_nodes_def by auto

lemma same_but_nodes_upd: "same_but_nodes W (W\<lparr>nodes := fs\<rparr>)"
  unfolding same_but_nodes_def by blast

lemma same_but_nodes_fields:
  assumes "same_but_nodes W W'"
  shows "http W' = http W" "sent W' = sent W" "denied W' = denied W"
    "disk_free W' = disk_free W" "stdout W' = stdout W"
  using assms unfolding same_but_nodes_def by auto



lemma open_wb_Inr:
  "open_wb W p = Inr W' \<Longrightarrow> W' = W\<lparr>nodes := (nodes W)(p \<mapsto> File [])\<rparr>"
  by (auto simp: open_wb_def split: if_splits option.splits node.splits)


lemma write_file_Some_nodes:
  "write_file W p data = (None, W') \<Longrightarrow> W' = W\<lparr>nodes := (nodes W)(p \<mapsto> File data)\<rparr>"
  by (auto simp: write_file_def split: sum.splits if_splits dest!: open_wb_Inr)

section \<open>The fetcher, branch by branch\<close>

lemma announced_fields:
  "http (announced W token query) = http W"
  "sent (announced W token query) = sent W @ [audio_request token]"
  "nodes (announced W token query) = nodes W"
  "denied (announced W token query) = denied W"
  "disk_free (announced W token query) = disk_free W"
  "stdout (announced W token query) = stdout W @ [DownloadingAudio query]"
  by (simp_all add: announced_def say_def)

text \<open>A query that cannot be printed: the fetcher raises before it sends anything.\<close>

lemma download_audio_unprintable:
  assumes "\<not> printable (DownloadingAudio query)"
  shows "download_audio U W token query output_dir = (Inl UnicodeEncodeError, W)"
  using assms by (simp add: download_audio_def print_unprintable Let_def)

lemma download_audio_failed:
  assumes "http W (audio_request token) = Inl e" and "printable (DownloadingAudio query)"
  shows "download_audio U W token query output_dir =
    (Inr False, say (ErrorDownloadingAudio e) (announced W token query))"
  using assms
  by (simp add: download_audio_def requests_get_def announced_def say_fields Let_def
      print_printable print_return_printable printable_simps(6))

lemma download_audio_status:
  assumes "http W (audio_request token) = Inr r" and "raise_for_status r = Some e"
    and "printable (DownloadingAudio query)"
  shows "download_audio U W token query output_dir =
    (Inr False, say (ErrorDownloadingAudio e) (announced W token query))"
  using assms
  by (simp add: download_audio_def requests_get_def announced_def say_fields Let_def
      print_printable print_return_printable printable_simps(6))

lemma download_audio_fetched:
  assumes "http W (audio_request token) = Inr r" and "raise_for_status r = None"
    and "printable (DownloadingAudio query)"
  shows "download_audio U W token query output_dir =
    (case mkdir_parents (announced W token query) output_dir of
       (Some e, W2) \<Rightarrow> (Inl (OSError e), W2)
     | (None, W2) \<Rightarrow>
         (case write_file W2 (output_dir @ [filename U query]) (resp_content r) of
            (Some e, W3) \<Rightarrow> (Inl (OSError e), W3)
          | (None, W3) \<Rightarrow>
              print_return (SuccessfullySaved (output_dir @ [filename U query])) True W3))"
  using assms
  by (simp add: download_audio_def requests_get_def announced_def say_fields parent_def
      Let_def print_printable)



section \<open>The resolver\<close>

lemma get_audio_token_unencodable:
  assumes "utf8_encode (strip U query) = None"
  shows "get_audio_token U W query = (Inl UnicodeEncodeError, W)"
  using assms by (simp add: get_audio_token_def quote_def)

lemma get_audio_token_frame:
  assumes "quote (strip U query) = Inr enc"
  shows "\<exists>out. snd (get_audio_token U W query)
     = W\<lparr>sent := sent W @ [page_request enc], stdout := out\<rparr>"
proof -
  let ?W1 = "W\<lparr>sent := sent W @ [page_request enc]\<rparr>"
  have p: "\<exists>out. say m ?W1 = W\<lparr>sent := sent W @ [page_request enc], stdout := out\<rparr>" for m
    by (rule exI [of _ "stdout W @ [m]"]) (simp add: say_def)
  have k: "\<exists>out. ?W1 = W\<lparr>sent := sent W @ [page_request enc], stdout := out\<rparr>"
    by (rule exI [of _ "stdout W"]) simp
  from assms have pq: "printable (ErrorFetchingPage query e)" for e
    by (simp add: printable_simps quoted_query_printable)
  show ?thesis
  proof (cases "http W (page_request enc)")
    case (Inl e)
    with assms p pq show ?thesis
      by (simp add: get_audio_token_def requests_get_def print_return_printable)
  next
    case (Inr r)
    show ?thesis
    proof (cases "raise_for_status r")
      case (Some e)
      with assms Inr p pq show ?thesis
        by (simp add: get_audio_token_def requests_get_def print_return_printable)
    next
      case None
      show ?thesis
      proof (cases "re_search (resp_text r)")
        case no: None
        with assms Inr None p show ?thesis
          by (simp add: get_audio_token_fetched)
      next
        case (Some t)
        with assms Inr None k show ?thesis
          by (simp add: get_audio_token_fetched)
      qed
    qed
  qed
qed

lemma get_audio_token_Some:
  assumes "fst (get_audio_token U W query) = Inr (Some token)"
  shows "token_shape token"
proof -
  from assms obtain enc r where "quote (strip U query) = Inr enc"
    "http W (page_request enc) = Inr r" "raise_for_status r = None"
    "re_search (resp_text r) = Some token"
    by (auto simp: get_audio_token_def requests_get_def print_return_def print_def
        split: sum.splits option.splits if_splits)
  then show ?thesis
    by (auto simp: re_search_Some_iff occurs_def)
qed

lemma token_shape_nonempty: "token_shape t \<Longrightarrow> t \<noteq> []"
  by auto

text \<open>
  Claim C6, as the code has it. For every query whose trimmed text can be encoded as UTF-8
  (it holds no lone surrogate), the resolver sends exactly one request: a GET of the
  dictionary base URL followed by the percent-encoded trimmed query, with the fixed
  headers and the timeout 10.
\<close>

theorem get_audio_token_request:
  assumes "utf8_encode (strip U query) = Some bytes"
  shows "sent (snd (get_audio_token U W query)) =
    sent W @ [\<lparr>req_url = str ''https://www.vocabulary.com/dictionary/''
                   @ concat (map quote_byte bytes),
               req_timeout = 10, req_headers = Some HEADERS\<rparr>]"
proof -
  from assms have q: "quote (strip U query) = Inr (concat (map quote_byte bytes))"
    by (simp add: quote_def)
  from get_audio_token_frame [OF q, of W] obtain out where
    "snd (get_audio_token U W query)
      = W\<lparr>sent := sent W @ [page_request (concat (map quote_byte bytes))], stdout := out\<rparr>"
    by blast
  then show ?thesis
    by (simp add: page_request_def)
qed

theorem get_audio_token_request_witness:
  "sent (snd (get_audio_token ascii_ucd (fresh_world serve_page Map.empty)
        (str ''  machine learning '')))
   = [\<lparr>req_url = str ''https://www.vocabulary.com/dictionary/machine%20learning'',
       req_timeout = 10, req_headers = Some HEADERS\<rparr>]"
proof -
  have "utf8_encode (strip ascii_ucd (str ''  machine learning '')) = Some (str ''machine learning'')"
    by (simp add: class_defs utf8_char_def str_def)
  from get_audio_token_request [OF this, of "fresh_world serve_page Map.empty"]
  show ?thesis
    by (simp add: fresh_world_def quote_defs str_def)
qed

text \<open>
  A query that is the lone surrogate U+DC80, as the interpreter decodes an undecodable
  argument byte: \<^verbatim>\<open>quote\<close> raises before the \<^verbatim>\<open>try\<close>, and no request is sent.
\<close>

theorem get_audio_token_surrogate_counterexample:
  "fst (get_audio_token ascii_ucd (fresh_world serve_page Map.empty) [56448])
     = Inl UnicodeEncodeError
   \<and> sent (snd (get_audio_token ascii_ucd (fresh_world serve_page Map.empty) [56448])) = []"
proof -
  have "utf8_encode (strip ascii_ucd [56448]) = None"
    by (simp add: class_defs ascii_ucd_def utf8_char_def)
  then show ?thesis
    by (simp add: get_audio_token_unencodable fresh_world_def)
qed




section \<open>A run that stops early\<close>

lemma request_kinds_differ: "page_request enc \<noteq> audio_request token"
  by (simp add: page_request_def audio_request_def)

lemma main_no_token:
  assumes "get_audio_token U W query = (Inr None, W1)"
  shows "main U W query output_dir = (Exit 1, W1)"
  using assms by (simp add: main_def)

lemma main_token:
  assumes "get_audio_token U W query = (Inr (Some token), W1)" and "token \<noteq> []"
  shows "main U W query output_dir =
    (case download_audio U (say (FoundAudioToken token) W1) token query output_dir of
       (Inl e, W2) \<Rightarrow> (Uncaught e, W2)
     | (Inr success, W2) \<Rightarrow> if \<not> success then (Exit 1, W2) else (Exit 0, say Done W2))"
proof -
  from assms(1) have "token_shape token"
    by (intro get_audio_token_Some [of U W query]) simp
  then have "printable (FoundAudioToken token)"
    by (simp add: printable_simps token_printable)
  with assms show ?thesis
    by (auto simp: main_def print_printable printable_simps(7) split: prod.splits sum.splits)
qed

text \<open>
  Claim C3. When the page is fetched and holds no quoted token, the resolver returns
  \<^verbatim>\<open>None\<close> and raises nothing, the process exits with status 1, the only request of
  the run is the page request, so no audio request is sent, and the file system is
  untouched.
\<close>

theorem no_token_exits_without_fetch:
  assumes "quote (strip U query) = Inr enc"
    and "http W (page_request enc) = Inr r"
    and "raise_for_status r = None"
    and "\<forall>pre t. \<not> occurs (resp_text r) pre t"
  shows "fst (get_audio_token U W query) = Inr None
    \<and> fst (main U W query output_dir) = Exit 1
    \<and> exit_status (fst (main U W query output_dir)) \<noteq> 0
    \<and> sent (snd (main U W query output_dir)) = sent W @ [page_request enc]
    \<and> (\<forall>token. audio_request token \<in> set (sent (snd (main U W query output_dir)))
          \<longrightarrow> audio_request token \<in> set (sent W))
    \<and> nodes (snd (main U W query output_dir)) = nodes W"
proof -
  let ?W1 = "say (NoAudioTokenFound query) (W\<lparr>sent := sent W @ [page_request enc]\<rparr>)"
  from assms(4) have "re_search (resp_text r) = None"
    by (simp add: re_search_None_iff)
  with assms(1-3) have g: "get_audio_token U W query = (Inr None, ?W1)"
    by (simp add: get_audio_token_fetched)
  then have m: "main U W query output_dir = (Exit 1, ?W1)"
    by (rule main_no_token)
  have "audio_request token \<noteq> page_request enc" for token
    using request_kinds_differ [of enc token] by auto
  with g m show ?thesis
    by (simp add: say_fields)
qed

theorem no_token_exits_without_fetch_witness:
  "fst (get_audio_token ascii_ucd (fresh_world plain_page Map.empty) (str ''zzzz'')) = Inr None
   \<and> fst (main ascii_ucd (fresh_world plain_page Map.empty) (str ''zzzz'') [str ''out'']) = Exit 1
   \<and> sent (snd (main ascii_ucd (fresh_world plain_page Map.empty) (str ''zzzz'') [str ''out'']))
       = [page_request (str ''zzzz'')]"
proof -
  let ?W = "fresh_world plain_page Map.empty"
  let ?r = "\<lparr>status_code = 200, resp_text = str ''<html>no audio here</html>'', resp_content = []\<rparr>"
  have q: "quote (strip ascii_ucd (str ''zzzz'')) = Inr (str ''zzzz'')"
    by (simp add: quote_defs class_defs str_def)
  have h: "http ?W (page_request (str ''zzzz'')) = Inr ?r"
    by (simp add: fresh_world_def plain_page_def)
  have ok: "raise_for_status ?r = None"
    by (simp add: raise_for_status_def)
  have "re_search (resp_text ?r) = None"
    by (simp add: str_def)
  then have none: "\<forall>pre t. \<not> occurs (resp_text ?r) pre t"
    by (simp add: re_search_None_iff)
  from no_token_exits_without_fetch [OF q h ok none, of "[str ''out'']"]
  show ?thesis
    by (simp add: fresh_world_def)
qed

lemma download_audio_no_write:
  assumes "(\<exists>e. http W (audio_request token) = Inl e)
      \<or> (\<exists>r e. http W (audio_request token) = Inr r \<and> raise_for_status r = Some e)"
    and p: "printable (DownloadingAudio query)"
  shows "fst (download_audio U W token query output_dir) = Inr False
    \<and> nodes (snd (download_audio U W token query output_dir)) = nodes W"
  using assms(1)
  by (auto simp: download_audio_failed [OF _ p] download_audio_status [OF _ _ p] say_fields
      announced_fields)

lemma download_audio_nodes_kept:
  assumes "(\<exists>e. http W (audio_request token) = Inl e)
      \<or> (\<exists>r e. http W (audio_request token) = Inr r \<and> raise_for_status r = Some e)"
  shows "nodes (snd (download_audio U W token query output_dir)) = nodes W"
proof (cases "printable (DownloadingAudio query)")
  case True
  with assms show ?thesis
    by (simp add: download_audio_no_write)
next
  case False
  then show ?thesis
    by (simp add: download_audio_unprintable)
qed

text \<open>
  Claim C4. When the resolver returns a token and the audio request fails in transport or
  comes back with a status that \<^verbatim>\<open>raise_for_status\<close> rejects (400 to 599), the process
  exits with status 1 and the file system is as before: no directory and no file is
  created. In any world, the fetcher changes the file system only after a response that
  \<^verbatim>\<open>raise_for_status\<close> accepts.
\<close>

theorem failed_fetch_writes_nothing:
  assumes "fst (get_audio_token U W query) = Inr (Some token)"
    and "(\<exists>e. http W (audio_request token) = Inl e)
      \<or> (\<exists>r e. http W (audio_request token) = Inr r \<and> raise_for_status r = Some e)"
  shows "fst (main U W query output_dir) = Exit 1
    \<and> exit_status (fst (main U W query output_dir)) \<noteq> 0
    \<and> nodes (snd (main U W query output_dir)) = nodes W
    \<and> (\<forall>W'. nodes (snd (download_audio U W' token query output_dir)) \<noteq> nodes W'
          \<longrightarrow> (\<exists>r. http W' (audio_request token) = Inr r \<and> raise_for_status r = None))"
proof -
  have only_after: "\<exists>r. http W' (audio_request token) = Inr r \<and> raise_for_status r = None"
    if "nodes (snd (download_audio U W' token query output_dir)) \<noteq> nodes W'" for W'
  proof (rule ccontr)
    assume "\<not> (\<exists>r. http W' (audio_request token) = Inr r \<and> raise_for_status r = None)"
    then have "(\<exists>e. http W' (audio_request token) = Inl e)
      \<or> (\<exists>r e. http W' (audio_request token) = Inr r \<and> raise_for_status r = Some e)"
      by (cases "http W' (audio_request token)") auto
    then have "nodes (snd (download_audio U W' token query output_dir)) = nodes W'"
      by (rule download_audio_nodes_kept)
    with that show False by simp
  qed
  obtain W1 where g: "get_audio_token U W query = (Inr (Some token), W1)"
    using assms(1) by (cases "get_audio_token U W query") auto
  from assms(1) have ne: "token \<noteq> []"
    by (auto dest: get_audio_token_Some)
  from g obtain enc where q: "quote (strip U query) = Inr enc"
    by (auto simp: get_audio_token_def split: sum.splits)
  from get_audio_token_frame [OF q, of W] g obtain out
    where W1: "W1 = W\<lparr>sent := sent W @ [page_request enc], stdout := out\<rparr>"
    by auto
  let ?W1 = "say (FoundAudioToken token) W1"
  have same: "http ?W1 = http W" "nodes ?W1 = nodes W"
    by (simp_all add: W1 say_fields)
  with assms(2) have "(\<exists>e. http ?W1 (audio_request token) = Inl e)
      \<or> (\<exists>r e. http ?W1 (audio_request token) = Inr r \<and> raise_for_status r = Some e)"
    by simp
  moreover from q have "printable (DownloadingAudio query)"
    by (simp add: printable_simps quoted_query_printable)
  ultimately have d: "fst (download_audio U ?W1 token query output_dir) = Inr False
    \<and> nodes (snd (download_audio U ?W1 token query output_dir)) = nodes ?W1"
    by (rule download_audio_no_write)
  obtain res W2 where r: "download_audio U ?W1 token query output_dir = (res, W2)"
    by (cases "download_audio U ?W1 token query output_dir")
  with d same have "res = Inr False" "nodes W2 = nodes W"
    by simp_all
  with r only_after show ?thesis
    by (simp add: main_token [OF g ne])
qed

theorem failed_fetch_writes_nothing_witness:
  "fst (get_audio_token ascii_ucd (fresh_world audio_missing Map.empty) (str ''Capricorn''))
     = Inr (Some (str ''C/BNUT8S5S2HDK''))
   \<and> fst (main ascii_ucd (fresh_world audio_missing Map.empty) (str ''Capricorn'') [str ''out''])
     = Exit 1
   \<and> nodes (snd (main ascii_ucd (fresh_world audio_missing Map.empty) (str ''Capricorn'')
        [str ''out''])) = Map.empty"
proof -
  let ?W = "fresh_world audio_missing Map.empty"
  let ?r = "\<lparr>status_code = 200, resp_text = example_page, resp_content = [73, 68, 51]\<rparr>"
  let ?e = "\<lparr>status_code = 404, resp_text = str ''Not Found'', resp_content = []\<rparr>"
  have q: "quote (strip ascii_ucd (str ''Capricorn'')) = Inr (str ''Capricorn'')"
    by (simp add: quote_defs class_defs str_def)
  have h: "http ?W (page_request (str ''Capricorn'')) = Inr ?r"
    by (simp add: fresh_world_def audio_missing_def serve_page_def page_request_def str_def)
  have ok: "raise_for_status ?r = None"
    by (simp add: raise_for_status_def)
  have "re_search (resp_text ?r) = Some (str ''C/BNUT8S5S2HDK'')"
    by (simp add: example_page_def str_def is_upper_def is_upper_digit_def)
  with q h ok have g: "fst (get_audio_token ascii_ucd ?W (str ''Capricorn''))
      = Inr (Some (str ''C/BNUT8S5S2HDK''))"
    by (simp add: get_audio_token_fetched)
  have "http ?W (audio_request (str ''C/BNUT8S5S2HDK'')) = Inr ?e"
    by (simp add: fresh_world_def audio_missing_def audio_request_def str_def)
  moreover have "raise_for_status ?e = Some (HTTPError 404)"
    by (simp add: raise_for_status_def)
  ultimately have bad: "(\<exists>e. http ?W (audio_request (str ''C/BNUT8S5S2HDK'')) = Inl e)
      \<or> (\<exists>r e. http ?W (audio_request (str ''C/BNUT8S5S2HDK'')) = Inr r
            \<and> raise_for_status r = Some e)"
    by blast
  from failed_fetch_writes_nothing [OF g bad, of "[str ''out'']"] g
  show ?thesis
    by (simp add: fresh_world_def)
qed

section \<open>Creating the output directory\<close>

lemma tree_shaped_parent:
  "tree_shaped W \<Longrightarrow> p \<noteq> [] \<Longrightarrow> nodes W p \<noteq> None \<Longrightarrow> is_dir W (parent p)"
  by (simp add: tree_shaped_def)

lemma is_dir_prefix:
  assumes "tree_shaped W"
  shows "is_dir W p \<Longrightarrow> prefix q p \<Longrightarrow> is_dir W q"
proof (induction p rule: rev_induct)
  case Nil
  then show ?case by simp
next
  case (snoc x xs)
  from snoc.prems(1) have "nodes W (xs @ [x]) \<noteq> None"
    by (simp add: is_dir_def node_at_def)
  with assms have "is_dir W (parent (xs @ [x]))"
    by (intro tree_shaped_parent) simp_all
  then have up: "is_dir W xs"
    by (simp add: parent_def)
  from snoc.prems(2) have "q = xs @ [x] \<or> prefix q xs"
    by (simp add: prefix_snoc)
  then show ?case
  proof
    assume "q = xs @ [x]"
    with snoc.prems(1) show ?thesis by simp
  next
    assume "prefix q xs"
    with up show ?thesis by (rule snoc.IH)
  qed
qed

lemma mkdir_parents_idempotent:
  assumes "tree_shaped W" and "is_dir W p"
  shows "mkdir_parents W p = (None, W)"
proof (cases "p = []")
  case True
  with assms(2) show ?thesis
    by (subst mkdir_parents.simps) (simp add: os_mkdir_def)
next
  case False
  from assms(2) False have n: "nodes W p = Some Dir"
    by (simp add: is_dir_def node_at_def)
  with assms(1) False have "is_dir W (parent p)"
    by (intro tree_shaped_parent) simp_all
  with False n have "os_mkdir W p = Inl FileExistsError"
    by (simp add: os_mkdir_def is_dir_def)
  with assms(2) show ?thesis
    by (subst mkdir_parents.simps) simp
qed

lemma grown_refl: "grown W p W"
  by (simp add: grown_def same_but_nodes_refl)

lemma grown_mono:
  assumes "grown W q W'" and "prefix q p"
  shows "grown W p W'"
  unfolding grown_def
proof (intro conjI allI)
  from assms(1) show "same_but_nodes W W'"
    by (simp add: grown_def)
next
  fix x
  from assms(1) have "nodes W' x = nodes W x \<or> (prefix x q \<and> nodes W x = None \<and> nodes W' x = Some Dir)"
    by (simp add: grown_def)
  with assms(2) show "nodes W' x = nodes W x \<or> (prefix x p \<and> nodes W x = None \<and> nodes W' x = Some Dir)"
    by (auto intro: prefix_order.trans)
qed

lemma grown_trans:
  assumes "grown W p W'" and "grown W' p W''"
  shows "grown W p W''"
  unfolding grown_def
proof (intro conjI allI)
  from assms show "same_but_nodes W W''"
    by (auto simp: grown_def intro: same_but_nodes_trans)
next
  fix x
  from assms(1) have a: "nodes W' x = nodes W x \<or> (prefix x p \<and> nodes W x = None \<and> nodes W' x = Some Dir)"
    by (simp add: grown_def)
  from assms(2) have b: "nodes W'' x = nodes W' x \<or> (prefix x p \<and> nodes W' x = None \<and> nodes W'' x = Some Dir)"
    by (simp add: grown_def)
  from a b show "nodes W'' x = nodes W x \<or> (prefix x p \<and> nodes W x = None \<and> nodes W'' x = Some Dir)"
    by auto
qed

lemma os_mkdir_grown: "os_mkdir W p = Inr W' \<Longrightarrow> grown W p W'"
  by (drule os_mkdir_Inr) (auto simp: grown_def same_but_nodes_upd)

lemma mkdir_flat_grown: "mkdir_flat W p = (e, W') \<Longrightarrow> grown W p W'"
  by (drule mkdir_flat_cases)
     (auto simp: grown_def same_but_nodes_upd same_but_nodes_refl split: if_splits)

lemma parent_prefix: "prefix (parent p) p"
  by (simp add: parent_def prefixeq_butlast)

lemma mkdir_parents_grown: "mkdir_parents W p = (e, W') \<Longrightarrow> grown W p W'"
proof (induction W p arbitrary: e W' rule: mkdir_parents.induct)
  case (1 W p)
  show ?case
  proof (cases "os_mkdir W p")
    case (Inr W'')
    with "1.prems" have "W' = W''"
      by (subst (asm) mkdir_parents.simps) simp
    with Inr show ?thesis
      by (simp add: os_mkdir_grown)
  next
    case (Inl err)
    show ?thesis
    proof (cases "err = FileNotFoundError \<and> parent p \<noteq> p")
      case False
      with Inl "1.prems" have "W' = W"
        by (subst (asm) mkdir_parents.simps) (auto split: if_splits)
      then show ?thesis
        by (simp add: grown_refl)
    next
      case True
      obtain e1 W1 where rec: "mkdir_parents W (parent p) = (e1, W1)"
        by (cases "mkdir_parents W (parent p)")
      from "1.IH" [OF Inl _ _ rec] True have "grown W (parent p) W1"
        by simp
      then have g1: "grown W p W1"
        using parent_prefix by (rule grown_mono)
      show ?thesis
      proof (cases e1)
        case (Some err1)
        with Inl True rec "1.prems" have "W' = W1"
          by (subst (asm) mkdir_parents.simps) simp
        with g1 show ?thesis by simp
      next
        case None
        with Inl True rec "1.prems" have "mkdir_flat W1 p = (e, W')"
          by (subst (asm) mkdir_parents.simps) simp
        then have "grown W1 p W'"
          by (rule mkdir_flat_grown)
        with g1 show ?thesis
          by (rule grown_trans)
      qed
    qed
  qed
qed

lemma mkdir_flat_success: "mkdir_flat W p = (None, W') \<Longrightarrow> is_dir W' p"
  by (auto simp: mkdir_flat_def is_dir_def node_at_def split: sum.splits if_splits
      dest!: os_mkdir_Inr)

lemma mkdir_parents_success: "mkdir_parents W p = (None, W') \<Longrightarrow> is_dir W' p"
proof (induction W p arbitrary: W' rule: mkdir_parents.induct)
  case (1 W p)
  show ?case
  proof (cases "os_mkdir W p")
    case (Inr W'')
    with "1.prems" have "W' = W''"
      by (subst (asm) mkdir_parents.simps) simp
    with os_mkdir_Inr [OF Inr] show ?thesis
      by (simp add: is_dir_def node_at_def)
  next
    case (Inl err)
    show ?thesis
    proof (cases "err = FileNotFoundError")
      case False
      with Inl "1.prems" show ?thesis
        by (subst (asm) mkdir_parents.simps) (auto split: if_splits)
    next
      case True
      with Inl "1.prems" obtain W1 where "mkdir_flat W1 p = (None, W')"
        by (subst (asm) mkdir_parents.simps)
           (auto split: if_splits prod.splits option.splits)
      then show ?thesis
        by (rule mkdir_flat_success)
    qed
  qed
qed

lemma prefix_parent_cases: "prefix q p \<longleftrightarrow> q = p \<or> (p \<noteq> [] \<and> prefix q (parent p))"
proof (cases p rule: rev_cases)
  case Nil
  then show ?thesis by auto
next
  case (snoc xs x)
  then show ?thesis
    by (auto simp: parent_def prefix_snoc)
qed

lemma is_dir_nodes: "nodes W' = nodes W \<Longrightarrow> is_dir W' p = is_dir W p"
  by (simp add: is_dir_def node_at_def)

lemma tree_shaped_nodes: "nodes W' = nodes W \<Longrightarrow> tree_shaped W' = tree_shaped W"
  by (simp add: tree_shaped_def is_dir_def node_at_def)

lemma is_dir_update:
  assumes "is_dir W q" and "nodes W p = None"
  shows "is_dir (W\<lparr>nodes := (nodes W)(p \<mapsto> Dir)\<rparr>) q"
  using assms by (auto simp: is_dir_def node_at_def)

lemma mkdir_parents_prefixes:
  "mkdir_parents W p = (None, W') \<Longrightarrow> tree_shaped W \<Longrightarrow> prefix q p \<Longrightarrow> is_dir W' q"
proof (induction W p arbitrary: W' q rule: mkdir_parents.induct)
  case (1 W p)
  from "1.prems"(1) have top: "is_dir W' p"
    by (rule mkdir_parents_success)
  show ?case
  proof (cases "q = p")
    case True
    with top show ?thesis by simp
  next
    case False
    with "1.prems"(3) have ne: "p \<noteq> []" and qp: "prefix q (parent p)"
      using prefix_parent_cases [of q p] by auto
    show ?thesis
    proof (cases "os_mkdir W p")
      case (Inr W'')
      with "1.prems"(1) have "W' = W''"
        by (subst (asm) mkdir_parents.simps) simp
      with os_mkdir_Inr [OF Inr]
      have W': "W' = W\<lparr>nodes := (nodes W)(p \<mapsto> Dir)\<rparr>" and up: "is_dir W (parent p)"
        and free: "nodes W p = None"
        by simp_all
      from "1.prems"(2) up qp have "is_dir W q"
        by (rule is_dir_prefix)
      then show ?thesis
        unfolding W' using free by (rule is_dir_update)
    next
      case (Inl err)
      show ?thesis
      proof (cases "err = FileNotFoundError")
        case False
        with Inl "1.prems"(1) have "W' = W" and "is_dir W p"
          by (subst (asm) mkdir_parents.simps; simp split: if_splits)+
        with "1.prems"(2,3) show ?thesis
          by (auto intro: is_dir_prefix)
      next
        case True
        from ne have "length (parent p) < length p"
          by (simp add: parent_def)
        then have pp: "parent p \<noteq> p"
          by auto
        obtain e1 W1 where rec: "mkdir_parents W (parent p) = (e1, W1)"
          by (cases "mkdir_parents W (parent p)")
        with Inl True pp "1.prems"(1) have e1: "e1 = None" and flat: "mkdir_flat W1 p = (None, W')"
          by (subst (asm) mkdir_parents.simps; simp split: option.splits)+
        from "1.IH" [OF Inl True pp _ "1.prems"(2) qp] rec e1 have q1: "is_dir W1 q"
          by simp
        from mkdir_flat_cases [OF flat]
        show ?thesis
        proof
          assume "W' = W1"
          with q1 show ?thesis by simp
        next
          assume "W' = W1\<lparr>nodes := (nodes W1)(p \<mapsto> Dir)\<rparr> \<and> nodes W1 p = None \<and> None = None"
          with q1 show ?thesis
            by (auto intro: is_dir_update)
        qed
      qed
    qed
  qed
qed

lemma creatable_at:
  "creatable W p \<Longrightarrow> prefix q p \<Longrightarrow> q \<noteq> [] \<Longrightarrow>
     nodes W q = Some Dir \<or> (nodes W q = None \<and> \<not> denied W q)"
  by (simp add: creatable_def)

lemma creatable_parent: "creatable W p \<Longrightarrow> creatable W (parent p)"
  unfolding creatable_def using parent_prefix [of p] by (meson prefix_order.trans)

lemma os_mkdir_creatable:
  assumes "creatable W p" and "os_mkdir W p = Inl err" and "err \<noteq> FileNotFoundError"
  shows "is_dir W p"
proof (cases "p = []")
  case True
  then show ?thesis by (simp add: is_dir_def node_at_def)
next
  case False
  from assms(1) False have here: "nodes W p = Some Dir \<or> (nodes W p = None \<and> \<not> denied W p)"
    by (intro creatable_at [of W p p]) simp_all
  have up: "parent p = [] \<or> nodes W (parent p) = Some Dir
      \<or> (nodes W (parent p) = None \<and> \<not> denied W (parent p))"
    using creatable_at [OF assms(1) parent_prefix] by blast
  from assms(2,3) False here up show ?thesis
    by (auto simp: os_mkdir_def is_dir_def node_at_def
        split: if_splits option.splits node.splits)
qed

lemma grown_off_path:
  assumes "grown W p W'" and "\<not> prefix q p"
  shows "nodes W' q = nodes W q"
  using assms by (auto simp: grown_def)

lemma parent_shorter: "p \<noteq> [] \<Longrightarrow> length (parent p) < length p"
  by (simp add: parent_def)

lemma parent_differs: "p \<noteq> [] \<Longrightarrow> parent p \<noteq> p"
  using parent_shorter [of p] by auto

lemma not_prefix_parent: "p \<noteq> [] \<Longrightarrow> \<not> prefix p (parent p)"
  using parent_shorter [of p] by (auto dest: prefix_length_le)

lemma mkdir_flat_creatable:
  assumes "is_dir W (parent p)" and "p \<noteq> []"
    and "nodes W p = Some Dir \<or> (nodes W p = None \<and> \<not> denied W p)"
  shows "fst (mkdir_flat W p) = None"
  using assms
  by (auto simp: mkdir_flat_def os_mkdir_def is_dir_def node_at_def
      split: option.splits node.splits)

lemma mkdir_parents_creatable: "creatable W p \<Longrightarrow> fst (mkdir_parents W p) = None"
proof (induction W p rule: mkdir_parents.induct)
  case (1 W p)
  show ?case
  proof (cases "os_mkdir W p")
    case (Inr W')
    then show ?thesis
      by (subst mkdir_parents.simps) simp
  next
    case (Inl err)
    show ?thesis
    proof (cases "err = FileNotFoundError")
      case False
      with "1.prems" Inl have "is_dir W p"
        by (intro os_mkdir_creatable)
      with Inl False show ?thesis
        by (subst mkdir_parents.simps) simp
    next
      case True
      with Inl have ne: "p \<noteq> []"
        by (auto simp: os_mkdir_def)
      then have pp: "parent p \<noteq> p"
        by (rule parent_differs)
      obtain e1 W1 where rec: "mkdir_parents W (parent p) = (e1, W1)"
        by (cases "mkdir_parents W (parent p)")
      from "1.IH" [OF Inl True pp] "1.prems" rec have e1: "e1 = None"
        by (simp add: creatable_parent)
      with rec have up: "is_dir W1 (parent p)"
        by (auto intro: mkdir_parents_success)
      from rec have g: "grown W (parent p) W1"
        by (rule mkdir_parents_grown)
      with ne have same: "nodes W1 p = nodes W p"
        by (intro grown_off_path [OF g] not_prefix_parent)
      from g have den: "denied W1 = denied W"
        by (simp add: grown_def same_but_nodes_fields)
      from "1.prems" ne have "nodes W p = Some Dir \<or> (nodes W p = None \<and> \<not> denied W p)"
        by (intro creatable_at [of W p p]) simp_all
      with same den have "nodes W1 p = Some Dir \<or> (nodes W1 p = None \<and> \<not> denied W1 p)"
        by simp
      with up ne have "fst (mkdir_flat W1 p) = None"
        by (intro mkdir_flat_creatable)
      with Inl True pp rec e1 show ?thesis
        by (subst mkdir_parents.simps) simp
    qed
  qed
qed

section \<open>Writing the file\<close>

lemma write_file_ok:
  assumes "is_dir W (parent p)" and "p \<noteq> []" and "nodes W p \<noteq> Some Dir"
    and "\<not> denied W p" and "length data \<le> disk_free W"
  shows "write_file W p data = (None, W\<lparr>nodes := (nodes W)(p \<mapsto> File data)\<rparr>)"
  using assms
  by (auto simp: write_file_def open_wb_def is_dir_def node_at_def
      split: option.splits node.splits)

lemma download_audio_True_printable:
  assumes "fst (download_audio U W token query output_dir) = Inr True"
  shows "printable (DownloadingAudio query)"
proof (rule ccontr)
  assume "\<not> printable (DownloadingAudio query)"
  then have "download_audio U W token query output_dir = (Inl UnicodeEncodeError, W)"
    by (rule download_audio_unprintable)
  with assms show False by simp
qed

lemma download_audio_True_response:
  assumes "fst (download_audio U W token query output_dir) = Inr True"
  shows "\<exists>r. http W (audio_request token) = Inr r"
proof (cases "http W (audio_request token)")
  case (Inl e)
  with assms download_audio_True_printable [OF assms] show ?thesis
    by (simp add: download_audio_failed)
next
  case (Inr r)
  then show ?thesis by blast
qed

lemma download_audio_True:
  assumes "http W (audio_request token) = Inr r"
    and "fst (download_audio U W token query output_dir) = Inr True"
  shows "\<exists>W2. mkdir_parents (announced W token query) output_dir = (None, W2)
    \<and> snd (download_audio U W token query output_dir) =
        say (SuccessfullySaved (output_dir @ [filename U query]))
          (W2\<lparr>nodes := (nodes W2)(output_dir @ [filename U query] \<mapsto> File (resp_content r))\<rparr>)"
proof -
  let ?A = "announced W token query"
  let ?p = "output_dir @ [filename U query]"
  from assms(2) have p: "printable (DownloadingAudio query)"
    by (rule download_audio_True_printable)
  from assms have ok: "raise_for_status r = None"
    by (cases "raise_for_status r") (simp_all add: download_audio_status [OF _ _ p])
  obtain e2 W2 where m: "mkdir_parents ?A output_dir = (e2, W2)"
    by (cases "mkdir_parents ?A output_dir")
  obtain e3 W3 where w: "write_file W2 ?p (resp_content r) = (e3, W3)"
    by (cases "write_file W2 ?p (resp_content r)")
  from assms(2) m w have e2: "e2 = None" and e3: "e3 = None"
    by (auto simp: download_audio_fetched [OF assms(1) ok p] split: option.splits)
  from w e3 have W3: "W3 = W2\<lparr>nodes := (nodes W2)(?p \<mapsto> File (resp_content r))\<rparr>"
    by (simp add: write_file_Some_nodes)
  have saved: "printable (SuccessfullySaved ?p)"
  proof (rule ccontr)
    assume "\<not> printable (SuccessfullySaved ?p)"
    with m w e2 e3 have "fst (download_audio U W token query output_dir) = Inl UnicodeEncodeError"
      by (simp add: download_audio_fetched [OF assms(1) ok p] print_return_unprintable)
    with assms(2) show False by simp
  qed
  with m w e2 e3 W3 show ?thesis
    by (simp add: download_audio_fetched [OF assms(1) ok p] print_return_printable)
qed

lemma download_audio_placed:
  assumes "http W (audio_request token) = Inr r"
    and "fst (download_audio U W token query output_dir) = Inr True"
  shows "nodes (snd (download_audio U W token query output_dir))
      (output_dir @ [filename U query]) = Some (File (resp_content r))"
  using download_audio_True [OF assms] by (auto simp: say_fields)

lemma download_audio_directories:
  assumes "http W (audio_request token) = Inr r"
    and "fst (download_audio U W token query output_dir) = Inr True"
    and "tree_shaped W" and "prefix q output_dir"
  shows "is_dir (snd (download_audio U W token query output_dir)) q"
proof -
  let ?A = "announced W token query"
  let ?p = "output_dir @ [filename U query]"
  from download_audio_True [OF assms(1,2)] obtain W2
    where m: "mkdir_parents ?A output_dir = (None, W2)"
      and W': "nodes (snd (download_audio U W token query output_dir))
        = (nodes W2)(?p \<mapsto> File (resp_content r))"
    by (auto simp: say_fields)
  from assms(3) have "tree_shaped ?A"
    by (simp add: tree_shaped_nodes [of ?A W] announced_fields)
  with m assms(4) have q2: "is_dir W2 q"
    by (intro mkdir_parents_prefixes [of ?A output_dir W2 q])
  from assms(4) have "q \<noteq> ?p"
    by (auto dest: prefix_length_le)
  with q2 W' show ?thesis
    by (auto simp: is_dir_def node_at_def split: if_splits)
qed

lemma download_audio_success:
  assumes "http W (audio_request token) = Inr r" and "raise_for_status r = None"
    and "creatable W output_dir"
    and "nodes W (output_dir @ [filename U query]) \<noteq> Some Dir"
    and "\<not> denied W (output_dir @ [filename U query])"
    and "length (resp_content r) \<le> disk_free W"
    and "printable (DownloadingAudio query)"
    and "printable (SuccessfullySaved (output_dir @ [filename U query]))"
  shows "fst (download_audio U W token query output_dir) = Inr True"
proof -
  let ?A = "announced W token query"
  let ?p = "output_dir @ [filename U query]"
  from assms(3) have "creatable ?A output_dir"
    by (simp add: creatable_def announced_fields)
  then have "fst (mkdir_parents ?A output_dir) = None"
    by (rule mkdir_parents_creatable)
  then obtain W2 where m: "mkdir_parents ?A output_dir = (None, W2)"
    by (cases "mkdir_parents ?A output_dir") simp
  then have dir: "is_dir W2 (parent ?p)"
    by (simp add: parent_def mkdir_parents_success)
  from m have g: "grown ?A output_dir W2"
    by (rule mkdir_parents_grown)
  have "\<not> prefix ?p output_dir"
    by (auto dest: prefix_length_le)
  with g have "nodes W2 ?p = nodes ?A ?p"
    by (rule grown_off_path)
  with assms(4) have free: "nodes W2 ?p \<noteq> Some Dir"
    by (simp add: announced_fields)
  from g have "denied W2 = denied ?A" "disk_free W2 = disk_free ?A"
    by (simp_all add: grown_def same_but_nodes_fields)
  with assms(5,6) have "\<not> denied W2 ?p" "length (resp_content r) \<le> disk_free W2"
    by (simp_all add: announced_fields)
  with dir free have "write_file W2 ?p (resp_content r)
      = (None, W2\<lparr>nodes := (nodes W2)(?p \<mapsto> File (resp_content r))\<rparr>)"
    by (intro write_file_ok) simp_all
  with m assms(8) show ?thesis
    by (simp add: download_audio_fetched [OF assms(1,2,7)] print_return_printable)
qed

text \<open>
  The filename is a plain name, and it can be printed when the query can.
\<close>

lemma filename_plain: "plain_name (filename U query)"
proof -
  have "0 \<notin> set (filename U query)"
  proof
    assume "0 \<in> set (filename U query)"
    then have "0 \<in> set (safe_filename U query)"
      by (simp add: filename_def str_def)
    then have "py_isalnum U 0 \<or> (0::nat) = 95"
      by (rule safe_filename_chars)
    then show False
      by (simp add: py_isalnum_def)
  qed
  moreover have "filename U query \<noteq> str ''.''" and "filename U query \<noteq> str ''..''"
    and "filename U query \<noteq> []"
    by (auto simp: filename_def str_def append_eq_Cons_conv)
  ultimately show ?thesis
    by (simp add: plain_name_def filename_one_segment)
qed

lemma strip_subset: "set (strip U s) \<subseteq> set s"
  by (auto simp: strip_def dest!: set_dropWhileD)

lemma filename_printable:
  assumes "utf8_encode query \<noteq> None"
  shows "utf8_encode (filename U query) \<noteq> None"
proof -
  have "scalar_value c" if "c \<in> set (filename U query)" for c
  proof -
    from that have "c \<in> set (safe_filename U query) \<or> c \<in> set (str ''.mp3'')"
      by (simp add: filename_def)
    then show ?thesis
    proof
      assume "c \<in> set (safe_filename U query)"
      then have "c \<in> set (str ''_'')
          \<or> (c \<in> set (re_sub_class (special U) [] (strip U query)) \<and> \<not> separator U c)"
        unfolding safe_filename_def by (rule re_sub_plus_chars)
      then have "c = 95 \<or> c \<in> set (strip U query)"
        by (auto simp: str_def re_sub_class_filter)
      with strip_subset [of U query] have "c = 95 \<or> c \<in> set query"
        by blast
      with assms show ?thesis
        by (auto simp: utf8_encode_None_iff scalar_value_def)
    next
      assume "c \<in> set (str ''.mp3'')"
      then show ?thesis
        by (auto simp: str_def scalar_value_def)
    qed
  qed
  then show ?thesis
    by (simp add: utf8_encode_None_iff)
qed

lemma saved_printable:
  assumes "utf8_encode query \<noteq> None" and "utf8_encode (concat output_dir) \<noteq> None"
  shows "printable (SuccessfullySaved (output_dir @ [filename U query]))"
  using assms filename_printable [OF assms(1), of U]
  by (auto simp: printable_simps utf8_encode_None_iff)


section \<open>Runs in the example worlds\<close>

lemma fresh_world_fields:
  "http (fresh_world h fs) = h" "sent (fresh_world h fs) = []" "nodes (fresh_world h fs) = fs"
  "denied (fresh_world h fs) = (\<lambda>p. False)" "disk_free (fresh_world h fs) = 1000"
  "stdout (fresh_world h fs) = []"
  by (simp_all add: fresh_world_def)

lemma tree_shaped_empty: "tree_shaped (fresh_world h Map.empty)"
  by (simp add: tree_shaped_def fresh_world_fields)





text \<open>
  Claim C5 at a failing input. The page gives the token and the audio is served, but the
  name of the output directory is taken by a file. \<^verbatim>\<open>mkdir\<close> raises
  \<^verbatim>\<open>FileExistsError\<close>; the handler of \<^verbatim>\<open>download_audio\<close> catches
  \<^verbatim>\<open>RequestException\<close> only, so the error leaves \<^verbatim>\<open>download_audio\<close> and
  \<^verbatim>\<open>main\<close> uncaught: the function returns no boolean and the program prints no
  message of its own after the announcement of the download.
\<close>

theorem filesystem_error_uncaught:
  "fst (main ascii_ucd (fresh_world serve_page file_in_the_way) (str ''Capricorn'') [str ''out''])
     = Uncaught (OSError FileExistsError)
   \<and> stdout (snd (main ascii_ucd (fresh_world serve_page file_in_the_way) (str ''Capricorn'')
        [str ''out'']))
     = [FoundAudioToken (str ''C/BNUT8S5S2HDK''), DownloadingAudio (str ''Capricorn'')]
   \<and> fst (download_audio ascii_ucd (fresh_world serve_page file_in_the_way)
        (str ''C/BNUT8S5S2HDK'') (str ''Capricorn'') [str ''out''])
     = Inl (OSError FileExistsError)"
proof -
  let ?W = "fresh_world serve_page file_in_the_way"
  let ?r = "\<lparr>status_code = 200, resp_text = example_page, resp_content = [73, 68, 51]\<rparr>"
  let ?t = "str ''C/BNUT8S5S2HDK''"
  let ?q = "str ''Capricorn''"
  have q: "quote (strip ascii_ucd ?q) = Inr ?q"
    by (simp add: quote_defs class_defs str_def)
  have h: "http W' req = Inr ?r" if "http W' = serve_page" for W' req
    using that by (simp add: serve_page_def)
  have h0: "http ?W (page_request ?q) = Inr ?r"
    by (simp add: fresh_world_fields serve_page_def)
  have ok: "raise_for_status ?r = None"
    by (simp add: raise_for_status_def)
  have s: "re_search (resp_text ?r) = Some ?t"
    by (simp add: example_page_def str_def is_upper_def is_upper_digit_def)
  let ?W1 = "?W\<lparr>sent := sent ?W @ [page_request ?q]\<rparr>"
  have g: "get_audio_token ascii_ucd ?W ?q = (Inr (Some ?t), ?W1)"
    using get_audio_token_fetched [OF q h0 ok] s by simp
  have ne: "?t \<noteq> []"
    by (simp add: str_def)
  from q have pq: "printable (DownloadingAudio ?q)"
    by (simp add: printable_simps quoted_query_printable)
  have mk: "mkdir_parents W' [str ''out''] = (Some FileExistsError, W')"
    if "nodes W' = file_in_the_way" for W'
    using that
    by (subst mkdir_parents.simps)
       (simp add: os_mkdir_def node_at_def is_dir_def parent_def file_in_the_way_def)
  have d: "download_audio ascii_ucd W' ?t ?q [str ''out'']
      = (Inl (OSError FileExistsError), announced W' ?t ?q)"
    if "http W' = serve_page" and "nodes W' = file_in_the_way" for W'
  proof -
    from that(1) have "http W' (audio_request ?t) = Inr ?r"
      by (rule h)
    from download_audio_fetched [OF this ok pq, of ascii_ucd "[str ''out'']"] that(2)
    show ?thesis
      by (simp add: mk announced_fields)
  qed
  have d1: "download_audio ascii_ucd (say (FoundAudioToken ?t) ?W1) ?t ?q [str ''out'']
      = (Inl (OSError FileExistsError), announced (say (FoundAudioToken ?t) ?W1) ?t ?q)"
    by (rule d) (simp_all add: say_fields fresh_world_fields)
  have d0: "download_audio ascii_ucd ?W ?t ?q [str ''out'']
      = (Inl (OSError FileExistsError), announced ?W ?t ?q)"
    by (rule d) (simp_all add: fresh_world_fields)
  have m: "main ascii_ucd ?W ?q [str ''out'']
      = (Uncaught (OSError FileExistsError), announced (say (FoundAudioToken ?t) ?W1) ?t ?q)"
    unfolding main_token [OF g ne] d1 by simp
  show ?thesis
    unfolding m d0 by (simp add: announced_fields say_fields fresh_world_fields)
qed

section \<open>A successful run\<close>

lemma get_audio_token_world:
  assumes "get_audio_token U W query = (Inr res, W1)"
  shows "http W1 = http W \<and> nodes W1 = nodes W \<and> denied W1 = denied W
    \<and> disk_free W1 = disk_free W"
proof -
  from assms obtain enc where q: "quote (strip U query) = Inr enc"
    by (auto simp: get_audio_token_def split: sum.splits)
  from get_audio_token_frame [OF q, of W] assms obtain out
    where "W1 = W\<lparr>sent := sent W @ [page_request enc], stdout := out\<rparr>"
    by auto
  then show ?thesis by simp
qed

lemma main_Exit_0:
  assumes "fst (main U W query output_dir) = Exit 0"
  shows "\<exists>token W1. get_audio_token U W query = (Inr (Some token), W1)
    \<and> fst (download_audio U (say (FoundAudioToken token) W1) token query output_dir) = Inr True
    \<and> snd (main U W query output_dir) =
        say Done (snd (download_audio U (say (FoundAudioToken token) W1) token query output_dir))"
proof -
  obtain res W1 where g: "get_audio_token U W query = (res, W1)"
    by (cases "get_audio_token U W query")
  with assms obtain token where res: "res = Inr (Some token)" and ne: "token \<noteq> []"
    by (auto simp: main_def split: sum.splits option.splits if_splits)
  let ?D = "download_audio U (say (FoundAudioToken token) W1) token query output_dir"
  obtain d W2 where dl: "?D = (d, W2)"
    by (cases ?D)
  from g res have g': "get_audio_token U W query = (Inr (Some token), W1)"
    by simp
  from assms dl have "d = Inr True" and "snd (main U W query output_dir) = say Done W2"
    by (auto simp: main_token [OF g' ne] split: sum.splits if_splits)
  with g' dl show ?thesis
    by simp
qed

lemma main_placed:
  assumes "tree_shaped W" and "fst (main U W query output_dir) = Exit 0"
  shows "(\<forall>q. prefix q output_dir \<longrightarrow> is_dir (snd (main U W query output_dir)) q)
    \<and> (\<exists>token r. fst (get_audio_token U W query) = Inr (Some token)
          \<and> http W (audio_request token) = Inr r
          \<and> nodes (snd (main U W query output_dir)) (output_dir @ [filename U query])
              = Some (File (resp_content r)))"
proof -
  from main_Exit_0 [OF assms(2)] obtain token W1
    where g: "get_audio_token U W query = (Inr (Some token), W1)"
      and ok: "fst (download_audio U (say (FoundAudioToken token) W1) token query output_dir)
        = Inr True"
      and fin: "snd (main U W query output_dir) =
        say Done (snd (download_audio U (say (FoundAudioToken token) W1) token query output_dir))"
    by blast
  let ?Wd = "say (FoundAudioToken token) W1"
  from get_audio_token_world [OF g] have same: "http ?Wd = http W" "nodes ?Wd = nodes W"
    by (simp_all add: say_fields)
  from ok obtain r where h: "http ?Wd (audio_request token) = Inr r"
    using download_audio_True_response by blast
  from same(2) have "tree_shaped ?Wd = tree_shaped W"
    by (rule tree_shaped_nodes)
  with assms(1) have tree: "tree_shaped ?Wd"
    by simp
  have dirs: "is_dir (snd (main U W query output_dir)) q" if "prefix q output_dir" for q
  proof -
    from h ok tree that have "is_dir (snd (download_audio U ?Wd token query output_dir)) q"
      by (rule download_audio_directories)
    moreover have "nodes (snd (main U W query output_dir))
        = nodes (snd (download_audio U ?Wd token query output_dir))"
      by (simp add: fin say_fields)
    then have "is_dir (snd (main U W query output_dir)) q
        = is_dir (snd (download_audio U ?Wd token query output_dir)) q"
      by (rule is_dir_nodes)
    ultimately show ?thesis
      by simp
  qed
  from h ok have "nodes (snd (download_audio U ?Wd token query output_dir))
      (output_dir @ [filename U query]) = Some (File (resp_content r))"
    by (rule download_audio_placed)
  then have "nodes (snd (main U W query output_dir)) (output_dir @ [filename U query])
      = Some (File (resp_content r))"
    by (simp add: fin say_fields)
  moreover from g have "fst (get_audio_token U W query) = Inr (Some token)"
    by simp
  moreover from h same have "http W (audio_request token) = Inr r"
    by simp
  ultimately have "\<exists>token r. fst (get_audio_token U W query) = Inr (Some token)
          \<and> http W (audio_request token) = Inr r
          \<and> nodes (snd (main U W query output_dir)) (output_dir @ [filename U query])
              = Some (File (resp_content r))"
    by blast
  with dirs show ?thesis
    by blast
qed

lemma main_success:
  assumes "get_audio_token U W query = (Inr (Some token), W1)" and "token \<noteq> []"
    and "fst (download_audio U (say (FoundAudioToken token) W1) token query output_dir) = Inr True"
  shows "fst (main U W query output_dir) = Exit 0"
proof -
  obtain d W2
    where "download_audio U (say (FoundAudioToken token) W1) token query output_dir = (d, W2)"
    by (cases "download_audio U (say (FoundAudioToken token) W1) token query output_dir")
  with assms(3) show ?thesis
    by (simp add: main_token [OF assms(1,2)])
qed

text \<open>
  Claim C9. In a tree-shaped file system: creating a directory that exists already raises
  nothing and changes nothing; whenever the fetcher returns \<^verbatim>\<open>True\<close>, every prefix of
  the output directory is a directory, the file with the payload is at the output
  directory joined with the filename, and it was written into the file system that the
  directory creation left; for a query and a directory of plain names that standard
  output can encode, the fetcher does return \<^verbatim>\<open>True\<close> when the response is accepted,
  nothing stands in the way of the directory, the file's path is not a directory, the
  path is not refused and the payload fits on the disk; and after a run
  that exits with status 0 every prefix of the output directory is a directory and the
  payload of the audio response is in the file at the output directory joined with the
  filename.
\<close>

theorem output_directory_created:
  assumes "tree_shaped W"
  shows "(is_dir W output_dir \<longrightarrow> mkdir_parents W output_dir = (None, W))
    \<and> (\<forall>token r.
          http W (audio_request token) = Inr r
          \<and> fst (download_audio U W token query output_dir) = Inr True \<longrightarrow>
            (\<forall>q. prefix q output_dir \<longrightarrow>
               is_dir (snd (download_audio U W token query output_dir)) q)
            \<and> nodes (snd (download_audio U W token query output_dir))
                (output_dir @ [filename U query]) = Some (File (resp_content r))
            \<and> (\<exists>W2. mkdir_parents (announced W token query) output_dir = (None, W2)
                  \<and> nodes (snd (download_audio U W token query output_dir))
                      = (nodes W2)(output_dir @ [filename U query] \<mapsto> File (resp_content r))))
    \<and> (\<forall>token r.
          utf8_encode query \<noteq> None
          \<and> plain_path output_dir \<and> utf8_encode (concat output_dir) \<noteq> None
          \<and> http W (audio_request token) = Inr r \<and> raise_for_status r = None
          \<and> creatable W output_dir
          \<and> nodes W (output_dir @ [filename U query]) \<noteq> Some Dir
          \<and> \<not> denied W (output_dir @ [filename U query])
          \<and> length (resp_content r) \<le> disk_free W
        \<longrightarrow> fst (download_audio U W token query output_dir) = Inr True)
    \<and> (fst (main U W query output_dir) = Exit 0 \<longrightarrow>
          (\<forall>q. prefix q output_dir \<longrightarrow> is_dir (snd (main U W query output_dir)) q)
          \<and> (\<exists>token r. fst (get_audio_token U W query) = Inr (Some token)
                \<and> http W (audio_request token) = Inr r
                \<and> nodes (snd (main U W query output_dir)) (output_dir @ [filename U query])
                    = Some (File (resp_content r))))"
proof (intro conjI impI allI)
  assume "is_dir W output_dir"
  with assms show "mkdir_parents W output_dir = (None, W)"
    by (rule mkdir_parents_idempotent)
next
  fix token r q
  assume "http W (audio_request token) = Inr r
      \<and> fst (download_audio U W token query output_dir) = Inr True"
    and "prefix q output_dir"
  with assms show "is_dir (snd (download_audio U W token query output_dir)) q"
    by (blast intro: download_audio_directories)
next
  fix token r
  assume "http W (audio_request token) = Inr r
      \<and> fst (download_audio U W token query output_dir) = Inr True"
  then show "nodes (snd (download_audio U W token query output_dir))
             (output_dir @ [filename U query]) = Some (File (resp_content r))"
    by (blast intro: download_audio_placed)
next
  fix token r
  assume "http W (audio_request token) = Inr r
      \<and> fst (download_audio U W token query output_dir) = Inr True"
  then show "\<exists>W2. mkdir_parents (announced W token query) output_dir = (None, W2)
               \<and> nodes (snd (download_audio U W token query output_dir))
                   = (nodes W2)(output_dir @ [filename U query] \<mapsto> File (resp_content r))"
    using download_audio_True [of W token r U query output_dir] by (auto simp: say_fields)
next
  fix token r
  assume a: "utf8_encode query \<noteq> None
         \<and> plain_path output_dir \<and> utf8_encode (concat output_dir) \<noteq> None
         \<and> http W (audio_request token) = Inr r \<and> raise_for_status r = None
         \<and> creatable W output_dir
         \<and> nodes W (output_dir @ [filename U query]) \<noteq> Some Dir
         \<and> \<not> denied W (output_dir @ [filename U query])
         \<and> length (resp_content r) \<le> disk_free W"
  then have uq: "utf8_encode query \<noteq> None" and ud: "utf8_encode (concat output_dir) \<noteq> None"
    by blast+
  from uq have p1: "printable (DownloadingAudio query)"
    by (simp add: printable_simps)
  from uq ud have p2: "printable (SuccessfullySaved (output_dir @ [filename U query]))"
    by (rule saved_printable)
  from a have "http W (audio_request token) = Inr r" and "raise_for_status r = None"
    and "creatable W output_dir"
    and "nodes W (output_dir @ [filename U query]) \<noteq> Some Dir"
    and "\<not> denied W (output_dir @ [filename U query])"
    and "length (resp_content r) \<le> disk_free W"
    by blast+
  then show "fst (download_audio U W token query output_dir) = Inr True"
    using p1 p2 by (rule download_audio_success)
next
  fix q
  assume "fst (main U W query output_dir) = Exit 0" and "prefix q output_dir"
  with main_placed [OF assms] show "is_dir (snd (main U W query output_dir)) q"
    by blast
next
  assume "fst (main U W query output_dir) = Exit 0"
  with main_placed [OF assms]
  show "\<exists>token r. fst (get_audio_token U W query) = Inr (Some token)
                \<and> http W (audio_request token) = Inr r
                \<and> nodes (snd (main U W query output_dir)) (output_dir @ [filename U query])
                    = Some (File (resp_content r))"
    by blast
qed

text \<open>
  A run for \<^verbatim>\<open>Capricorn\<close> into the directory \<^verbatim>\<open>audio_files/us\<close> of an empty file
  system: the run exits with status 0, both directories are there afterwards and the
  three bytes served are in \<^verbatim>\<open>audio_files/us/Capricorn.mp3\<close>.
\<close>

theorem output_directory_created_witness:
  "fst (main ascii_ucd (fresh_world serve_page Map.empty) (str ''Capricorn'')
        [str ''audio_files'', str ''us'']) = Exit 0
   \<and> nodes (fresh_world serve_page Map.empty) [str ''audio_files''] = None
   \<and> is_dir (snd (main ascii_ucd (fresh_world serve_page Map.empty) (str ''Capricorn'')
        [str ''audio_files'', str ''us''])) [str ''audio_files'']
   \<and> is_dir (snd (main ascii_ucd (fresh_world serve_page Map.empty) (str ''Capricorn'')
        [str ''audio_files'', str ''us''])) [str ''audio_files'', str ''us'']
   \<and> nodes (snd (main ascii_ucd (fresh_world serve_page Map.empty) (str ''Capricorn'')
        [str ''audio_files'', str ''us'']))
        [str ''audio_files'', str ''us'', str ''Capricorn.mp3''] = Some (File [73, 68, 51])"
proof -
  let ?W = "fresh_world serve_page Map.empty"
  let ?r = "\<lparr>status_code = 200, resp_text = example_page, resp_content = [73, 68, 51]\<rparr>"
  let ?d = "[str ''audio_files'', str ''us'']"
  let ?t = "str ''C/BNUT8S5S2HDK''"
  let ?q = "str ''Capricorn''"
  let ?W1 = "?W\<lparr>sent := sent ?W @ [page_request ?q]\<rparr>"
  let ?Wd = "say (FoundAudioToken ?t) ?W1"
  note C9 = output_directory_created [of _ ?d ascii_ucd ?q]
  have q: "quote (strip ascii_ucd ?q) = Inr ?q"
    by (simp add: quote_defs class_defs str_def)
  have h0: "http ?W (page_request ?q) = Inr ?r"
    by (simp add: fresh_world_fields serve_page_def)
  have ok: "raise_for_status ?r = None"
    by (simp add: raise_for_status_def)
  have s: "re_search (resp_text ?r) = Some ?t"
    by (simp add: example_page_def str_def is_upper_def is_upper_digit_def)
  have g: "get_audio_token ascii_ucd ?W ?q = (Inr (Some ?t), ?W1)"
    using get_audio_token_fetched [OF q h0 ok] s by simp
  have ne: "?t \<noteq> []"
    by (simp add: str_def)
  have name: "filename ascii_ucd ?q = str ''Capricorn.mp3''"
    by (simp add: filename_def safe_filename_def class_defs str_def)
  have tree: "tree_shaped ?Wd"
    by (simp add: tree_shaped_def say_fields fresh_world_fields)
  have enc: "utf8_encode ?q \<noteq> None \<and> plain_path ?d \<and> utf8_encode (concat ?d) \<noteq> None"
    by (simp add: plain_path_def plain_name_def) (simp add: utf8_char_def str_def)
  have "http ?Wd (audio_request ?t) = Inr ?r \<and> raise_for_status ?r = None
      \<and> creatable ?Wd ?d
      \<and> nodes ?Wd (?d @ [filename ascii_ucd ?q]) \<noteq> Some Dir
      \<and> \<not> denied ?Wd (?d @ [filename ascii_ucd ?q])
      \<and> length (resp_content ?r) \<le> disk_free ?Wd"
    by (simp add: creatable_def say_fields fresh_world_fields serve_page_def ok)
  with enc have can: "utf8_encode ?q \<noteq> None
      \<and> plain_path ?d \<and> utf8_encode (concat ?d) \<noteq> None
      \<and> http ?Wd (audio_request ?t) = Inr ?r \<and> raise_for_status ?r = None
      \<and> creatable ?Wd ?d
      \<and> nodes ?Wd (?d @ [filename ascii_ucd ?q]) \<noteq> Some Dir
      \<and> \<not> denied ?Wd (?d @ [filename ascii_ucd ?q])
      \<and> length (resp_content ?r) \<le> disk_free ?Wd"
    by blast
  from C9 [OF tree] can
  have "fst (download_audio ascii_ucd ?Wd ?t ?q ?d) = Inr True"
    by blast
  with g ne have exit: "fst (main ascii_ucd ?W ?q ?d) = Exit 0"
    by (rule main_success)
  have p1: "prefix [str ''audio_files''] ?d" and p2: "prefix ?d ?d"
    by simp_all
  from C9 [OF tree_shaped_empty, of serve_page] exit
  have dirs: "\<forall>p. prefix p ?d \<longrightarrow> is_dir (snd (main ascii_ucd ?W ?q ?d)) p"
    and "\<exists>token r. http ?W (audio_request token) = Inr r
        \<and> nodes (snd (main ascii_ucd ?W ?q ?d)) (?d @ [filename ascii_ucd ?q])
            = Some (File (resp_content r))"
    by blast+
  then have placed: "nodes (snd (main ascii_ucd ?W ?q ?d)) (?d @ [filename ascii_ucd ?q])
      = Some (File [73, 68, 51])"
    by (auto simp: fresh_world_fields serve_page_def)
  from dirs p1 p2 have "is_dir (snd (main ascii_ucd ?W ?q ?d)) [str ''audio_files'']"
    and "is_dir (snd (main ascii_ucd ?W ?q ?d)) ?d"
    by blast+
  with exit placed name show ?thesis
    by (simp add: fresh_world_fields)
qed

end
